theory Spec2Isabelle
  imports Complex_Main "HOL-Library.Word"
begin

section \<open>qsrc\_strdb: a reverse index from string literals to function names\<close>

text \<open>
  The program (\<^verbatim>\<open>qsrc_strdb.py\<close>) walks C/C++ files, takes the string literals of every
  function declaration, hashes them with xxh64 and records, per hash, the set of names of
  the functions that hold such a literal. Two tables are kept and pickled to disk: the
  dictionary \<^verbatim>\<open>db\<close> (hash of a literal to set of function names) and the set \<^verbatim>\<open>fdb\<close> of
  hashes of the files already processed.

  The libraries the program calls are not part of it: libclang (the parser), xxhash,
  pathlib's directory walk, the performance counter and SIGINT delivery. They are gathered
  in a record \<open>world\<close> and every function of the program takes it as its first argument.
  Opening a source file and parsing it can fail: the exception is not caught anywhere in
  the program, so the run ends there, and what is left of it is the state of the database
  files at that moment. Walking a directory and writing a database file are taken to
  succeed, and a database file that was written to its end unpickles. Printing of progress
  and of the final statistics is left out.
\<close>

subsection \<open>Data\<close>

type_synonym digest = "64 word"
type_synonym path = string

text \<open>The dictionary \<^verbatim>\<open>db\<close> and the set \<^verbatim>\<open>fdb\<close>.\<close>

type_synonym strdb_t = "digest \<rightharpoonup> string set"
type_synonym filesdb_t = "digest set"

text \<open>What libclang reports: tokens and cursors, each with a kind and a spelling.\<close>

datatype TokenKind = PUNCTUATION | KEYWORD | IDENTIFIER | LITERAL | COMMENT

datatype CursorKind =
  TRANSLATION_UNIT | FUNCTION_DECL | CXX_METHOD | VAR_DECL | STRING_LITERAL | OTHER_CURSOR

record token =
  token_kind :: TokenKind
  token_spelling :: string

record node =
  node_kind :: CursorKind
  node_spelling :: string
  get_tokens :: "token list"

text \<open>
  The environment of a run. \<open>xxh64\<close> is the digest of xxhash (on the UTF-8 bytes of a
  text as on the bytes of a file). \<open>read_bytes\<close> gives the bytes of a file that
  \<^verbatim>\<open>open(filename, 'rb')\<close> opens, and \<open>None\<close> for a path on which it raises (a directory,
  a file that may not be read). \<open>parse\<close> is the preorder walk of the translation unit
  libclang builds for a file, and \<open>None\<close> when libclang raises on it. \<open>rglob\<close> is what
  \<^verbatim>\<open>Path.rglob('*.[cp]*')\<close> yields below a directory, files and directories alike.
  \<open>perf_counter\<close> gives the successive readings of the performance counter, and
  \<open>sigint i\<close> tells whether Ctrl+C arrives while the \<open>i\<close>-th file of the loop is being
  processed (\<open>sigint 0\<close>: after the handler is installed and before the loop starts).
\<close>

record world =
  xxh64 :: "string \<Rightarrow> digest"
  is_file :: "path \<Rightarrow> bool"
  is_dir :: "path \<Rightarrow> bool"
  rglob :: "path \<Rightarrow> path list"
  read_bytes :: "path \<Rightarrow> string option"
  parse :: "path \<Rightarrow> node list option"
  perf_counter :: "nat \<Rightarrow> real"
  sigint :: "nat \<Rightarrow> bool"

subsection \<open>Literal extraction (lines 102--104)\<close>

definition dquote :: char where
  "dquote = CHR 0x22"

text \<open>\<^verbatim>\<open>s.startswith('"')\<close>\<close>

definition startswith_dquote :: "string \<Rightarrow> bool" where
  "startswith_dquote s = (case s of [] \<Rightarrow> False | c # _ \<Rightarrow> c = dquote)"

text \<open>
  \<^verbatim>\<open>s[1:-1]\<close>: the slice from index 1 up to the last index, exclusive; empty when the
  text has fewer than two characters.
\<close>

definition slice_1_m1 :: "string \<Rightarrow> string" where
  "slice_1_m1 s = butlast (tl s)"

text \<open>The condition of the generator expression.\<close>

definition qualifying :: "token \<Rightarrow> bool" where
  "qualifying t \<longleftrightarrow>
     token_kind t = LITERAL \<and> startswith_dquote (token_spelling t) \<and> length (token_spelling t) > 12"

text \<open>The generator: the stripped spellings of the qualifying tokens, in token order.\<close>

definition literals :: "node \<Rightarrow> string list" where
  "literals n = map (\<lambda>t. slice_1_m1 (token_spelling t)) (filter qualifying (get_tokens n))"

text \<open>\<^verbatim>\<open>get_hash\<close>\<close>

definition get_hash :: "world \<Rightarrow> string \<Rightarrow> digest" where
  "get_hash w s = xxh64 w s"

subsection \<open>Merging into the reverse index (lines 105--109)\<close>

definition merge :: "digest \<Rightarrow> string \<Rightarrow> strdb_t \<Rightarrow> strdb_t" where
  "merge hash_value func_name d =
     (case d hash_value of
        None \<Rightarrow> d(hash_value \<mapsto> {func_name})
      | Some names \<Rightarrow> d(hash_value \<mapsto> insert func_name names))"

text \<open>The body of the loop over the literals of one function declaration.\<close>

definition index_function :: "world \<Rightarrow> node \<Rightarrow> strdb_t \<Rightarrow> strdb_t" where
  "index_function w n d =
     foldl (\<lambda>d s. merge (get_hash w s) (node_spelling n) d) d (literals n)"

text \<open>The loop over the nodes of the preorder walk (lines 98--109).\<close>

definition index_nodes :: "world \<Rightarrow> node list \<Rightarrow> strdb_t \<Rightarrow> strdb_t" where
  "index_nodes w ns d =
     foldl (\<lambda>d n. if node_kind n = FUNCTION_DECL then index_function w n d else d) d ns"

subsection \<open>The two pickled tables (lines 25--44)\<close>

text \<open>
  A database file holds the pickle of a dictionary or of a set. The pickle format is not
  the program's: a file that was written to the end holds the object that was dumped, and
  loading gives that object back. What the program adds is the way it opens the file:
  mode \<^verbatim>\<open>'wb'\<close> cuts an existing file to zero bytes before the first byte of the new
  pickle is written, and \<^verbatim>\<open>pickle.load\<close> raises \<^verbatim>\<open>EOFError\<close> on such a file.
\<close>

datatype pyval = PDict strdb_t | PSet filesdb_t

datatype content = Pickled pyval | Truncated

type_synonym disk = "path \<rightharpoonup> content"

datatype error = EOFError | TypeError | OSError | TranslationUnitLoadError

definition open_wb :: "path \<Rightarrow> disk \<Rightarrow> disk" where
  "open_wb filename dk = dk(filename \<mapsto> Truncated)"

definition pickle_dump :: "pyval \<Rightarrow> path \<Rightarrow> disk \<Rightarrow> disk" where
  "pickle_dump v filename dk = dk(filename \<mapsto> Pickled v)"

definition save_db :: "pyval \<Rightarrow> path \<Rightarrow> disk \<Rightarrow> disk" where
  "save_db v filename dk = pickle_dump v filename (open_wb filename dk)"

text \<open>
  The states of the disk that one call of \<^verbatim>\<open>save_db\<close> goes through, in order: after
  \<^verbatim>\<open>open\<close>, and after \<^verbatim>\<open>pickle.dump\<close> and the closing of the file. A process that is
  stopped inside the call leaves the disk in a state of this list.
\<close>

definition save_db_stages :: "pyval \<Rightarrow> path \<Rightarrow> disk \<Rightarrow> disk list" where
  "save_db_stages v filename dk = [open_wb filename dk, save_db v filename dk]"

definition pickle_load :: "content \<Rightarrow> error + pyval" where
  "pickle_load c = (case c of Pickled v \<Rightarrow> Inr v | Truncated \<Rightarrow> Inl EOFError)"

definition load_db :: "disk \<Rightarrow> path \<Rightarrow> error + pyval" where
  "load_db dk filename =
     (case dk filename of Some c \<Rightarrow> pickle_load c | None \<Rightarrow> Inr (PDict Map.empty))"

definition load_fdb :: "disk \<Rightarrow> path \<Rightarrow> error + pyval" where
  "load_fdb dk filename =
     (case dk filename of Some c \<Rightarrow> pickle_load c | None \<Rightarrow> Inr (PSet {}))"

subsection \<open>Command line and program state\<close>

datatype command = Parse bool path | Find string | Print | Info | NoCommand

record args =
  strdb :: path
  filesdb :: path
  savetime :: int
  cmd :: command

text \<open>
  The module's global variables, the database files, and the number of readings taken from
  the performance counter so far.
\<close>

record state =
  db :: strdb_t
  fdb :: filesdb_t
  interrupt :: bool
  save_time :: real
  files_number :: nat
  files_size :: nat
  ticks :: nat
  on_disk :: disk

definition signal_handler :: "state \<Rightarrow> state" where
  "signal_handler st = st\<lparr>interrupt := True\<rparr>"

definition save_all :: "args \<Rightarrow> state \<Rightarrow> state" where
  "save_all a st =
     st\<lparr>on_disk := save_db (PSet (fdb st)) (filesdb a)
                     (save_db (PDict (db st)) (strdb a) (on_disk st))\<rparr>"

subsection \<open>Hashing a file (lines 54--63)\<close>

text \<open>
  \<^verbatim>\<open>iter(lambda: f.read(blocksize), b'')\<close>: the blocks of the file, up to the first empty
  read.
\<close>

function read_blocks :: "nat \<Rightarrow> string \<Rightarrow> string list" where
  "read_blocks blocksize bs =
     (if blocksize = 0 \<or> bs = [] then []
      else take blocksize bs # read_blocks blocksize (drop blocksize bs))"
  by pat_completeness auto
termination
  by (relation "measure (\<lambda>(blocksize, bs). length bs)") auto

declare read_blocks.simps [simp del]

text \<open>
  A function that can raise returns either the exception together with the database files
  as they are at that moment, or its result.
\<close>

type_synonym 'a result = "error \<times> disk + 'a"

text \<open>
  The streaming hasher is the text it has been fed so far; its digest is the hash of that
  text. The file counter is raised before the file is opened.
\<close>

definition get_file_hash_xx :: "world \<Rightarrow> path \<Rightarrow> state \<Rightarrow> (digest \<times> state) result" where
  "get_file_hash_xx w filename st =
     (let st1 = st\<lparr>files_number := files_number st + 1\<rparr>
      in case read_bytes w filename of
           None \<Rightarrow> Inl (OSError, on_disk st1)
         | Some bytes \<Rightarrow>
             (let blocks = read_blocks 65536 bytes;
                  hasher = foldl (\<lambda>h block. h @ block) [] blocks
              in Inr (xxh64 w hasher,
                      st1\<lparr>files_size := files_size st1 + sum_list (map length blocks)\<rparr>)))"

subsection \<open>Finding the source files (lines 65--72)\<close>

text \<open>
  \<^verbatim>\<open>Path.name\<close> and \<^verbatim>\<open>Path.suffix\<close> of pathlib (Python 3.10 to 3.12). The components of
  a path are the texts between its slashes, the empty ones and the single dots left out;
  the name is the last component, or empty when there is none; the suffix is the part of
  the name from its last dot on, when that dot is neither its first nor its last character.
\<close>

fun components :: "string \<Rightarrow> string \<Rightarrow> string list" where
  "components acc [] = [rev acc]"
| "components acc (c # cs) =
     (if c = CHR ''/'' then rev acc # components [] cs else components (c # acc) cs)"

definition path_name :: "path \<Rightarrow> string" where
  "path_name p =
     (case rev (filter (\<lambda>part. part \<noteq> [] \<and> part \<noteq> ''.'') (components [] p)) of
        [] \<Rightarrow> []
      | name # _ \<Rightarrow> name)"

definition path_suffix :: "path \<Rightarrow> string" where
  "path_suffix p =
     (let name = path_name p;
          ext = rev (takeWhile (\<lambda>c. c \<noteq> CHR ''.'') (rev name))
      in if CHR ''.'' \<in> set name \<and> ext \<noteq> [] \<and> length ext + 1 < length name
         then CHR ''.'' # ext else [])"

definition get_cpp_files :: "world \<Rightarrow> path \<Rightarrow> path list" where
  "get_cpp_files w p =
     (if is_file w p then (if path_suffix p \<in> {''.c'', ''.cpp''} then [p] else [])
      else if is_dir w p then filter (\<lambda>f. path_suffix f \<in> {''.c'', ''.cpp''}) (rglob w p)
      else [])"

subsection \<open>Processing (lines 74--131)\<close>

text \<open>
  \<^verbatim>\<open>process_file\<close>. The early return of line 96 leaves the tables as they are; otherwise
  the file is parsed, its literals are merged, its hash is added, and the tables are saved
  when more than \<^verbatim>\<open>savetime\<close> seconds have passed since the last save. When libclang
  raises, on the parse or while the nodes are walked, the run ends and what was merged in
  memory is lost with it: \<open>parse\<close> answers \<open>None\<close> for such a file.
\<close>

definition process_file :: "world \<Rightarrow> args \<Rightarrow> path \<Rightarrow> state \<Rightarrow> state result" where
  "process_file w a filepath st =
     (case get_file_hash_xx w filepath st of
        Inl raised \<Rightarrow> Inl raised
      | Inr (fhash, st1) \<Rightarrow>
          if fhash \<in> fdb st1 then Inr st1
          else
            (case parse w filepath of
               None \<Rightarrow> Inl (TranslationUnitLoadError, on_disk st1)
             | Some nodes \<Rightarrow>
                 (let st2 = st1\<lparr>db := index_nodes w nodes (db st1)\<rparr>;
                      st3 = st2\<lparr>fdb := insert fhash (fdb st2)\<rparr>;
                      curr_time = perf_counter w (ticks st3);
                      st4 = st3\<lparr>ticks := ticks st3 + 1\<rparr>
                  in if curr_time - save_time st4 > real_of_int (savetime a)
                     then let st5 = save_all a st4
                          in Inr (st5\<lparr>save_time := perf_counter w (ticks st5),
                                     ticks := ticks st5 + 1\<rparr>)
                     else Inr st4)))"

text \<open>
  Ctrl+C runs \<^verbatim>\<open>signal_handler\<close> between two bytecodes of the main program. A signal that
  arrives while file \<open>i\<close> is processed is delivered here right after the check of the
  flag that let file \<open>i\<close> in, the earliest moment there is.
\<close>

definition deliver :: "world \<Rightarrow> nat \<Rightarrow> state \<Rightarrow> state" where
  "deliver w i st = (if sigint w i then signal_handler st else st)"

text \<open>The loop of lines 121--125 over \<^verbatim>\<open>enumerate(files, 1)\<close>.\<close>

fun files_loop :: "world \<Rightarrow> args \<Rightarrow> (nat \<times> path) list \<Rightarrow> state \<Rightarrow> state result" where
  "files_loop w a [] st = Inr st"
| "files_loop w a ((i, file_path) # rest) st =
     (if interrupt st then Inr st
      else case process_file w a file_path (deliver w i st) of
             Inl raised \<Rightarrow> Inl raised
           | Inr st1 \<Rightarrow> files_loop w a rest st1)"

definition process_path :: "world \<Rightarrow> args \<Rightarrow> path \<Rightarrow> state \<Rightarrow> state result" where
  "process_path w a p st =
     (let files = get_cpp_files w p;
          total_files = length files
      in if total_files = 0 then Inr st
         else case files_loop w a (enumerate 1 files) st of
                Inl raised \<Rightarrow> Inl raised
              | Inr st1 \<Rightarrow> Inr (st1\<lparr>ticks := ticks st1 + 1\<rparr>))"

subsection \<open>The commands (lines 157--192)\<close>

datatype console =
  Database_size nat
| Found_in_functions "string set"
| String_not_found
| Dump strdb_t nat
| Unknown_command

definition restart :: "args \<Rightarrow> bool" where
  "restart a = (case cmd a of Parse r _ \<Rightarrow> r | _ \<Rightarrow> False)"

text \<open>
  From here on \<^verbatim>\<open>db\<close> is used as a dictionary and \<^verbatim>\<open>fdb\<close> as a set. A file that holds
  an object of the other kind makes Python raise \<^verbatim>\<open>TypeError\<close> or \<^verbatim>\<open>AttributeError\<close> at
  the first operation the object lacks; here the run ends with \<open>TypeError\<close> when the object
  is loaded.
\<close>

fun as_dict :: "pyval \<Rightarrow> error + strdb_t" where
  "as_dict (PDict d) = Inr d"
| "as_dict (PSet _) = Inl TypeError"

fun as_set :: "pyval \<Rightarrow> error + filesdb_t" where
  "as_set (PSet f) = Inr f"
| "as_set (PDict _) = Inl TypeError"

definition initial_tables :: "args \<Rightarrow> disk \<Rightarrow> error + (strdb_t \<times> filesdb_t)" where
  "initial_tables a dk =
     (if restart a then Inr (Map.empty, {})
      else case load_db dk (strdb a) of
             Inl e \<Rightarrow> Inl e
           | Inr v \<Rightarrow>
              (case load_fdb dk (filesdb a) of
                 Inl e \<Rightarrow> Inl e
               | Inr u \<Rightarrow>
                  (case as_dict v of
                     Inl e \<Rightarrow> Inl e
                   | Inr d \<Rightarrow> (case as_set u of Inl e \<Rightarrow> Inl e | Inr f \<Rightarrow> Inr (d, f)))))"

text \<open>The state in which the \<^verbatim>\<open>parse\<close> command starts, \<^verbatim>\<open>save_time = start_time\<close>.\<close>

definition start_state :: "world \<Rightarrow> strdb_t \<Rightarrow> filesdb_t \<Rightarrow> disk \<Rightarrow> state" where
  "start_state w d f dk =
     \<lparr>db = d, fdb = f, interrupt = False, save_time = perf_counter w 0,
      files_number = 0, files_size = 0, ticks = 1, on_disk = dk\<rparr>"

text \<open>
  The \<^verbatim>\<open>parse\<close> command: \<^verbatim>\<open>save_all\<close> comes after \<^verbatim>\<open>process_path\<close> has returned, and
  is not reached when it raises.
\<close>

definition parse_command :: "world \<Rightarrow> args \<Rightarrow> path \<Rightarrow> state \<Rightarrow> state result" where
  "parse_command w a input_file st =
     (case process_path w a input_file (deliver w 0 st) of
        Inl raised \<Rightarrow> Inl raised
      | Inr st1 \<Rightarrow> Inr (save_all a st1))"

text \<open>
  A run ends with an uncaught exception (\<open>Inl\<close>) or with what it printed last (\<open>Inr\<close>),
  and in both cases leaves the database files in some state.
\<close>

definition main :: "world \<Rightarrow> args \<Rightarrow> disk \<Rightarrow> error \<times> disk + console \<times> disk" where
  "main w a dk =
     (case initial_tables a dk of
        Inl e \<Rightarrow> Inl (e, dk)
      | Inr (d, f) \<Rightarrow>
         (case cmd a of
            Parse r input_file \<Rightarrow>
              (case parse_command w a input_file (start_state w d f dk) of
                 Inl raised \<Rightarrow> Inl raised
               | Inr st \<Rightarrow> Inr (Database_size (card (dom (db st))), on_disk st))
          | Find s \<Rightarrow>
              (let hash_value = get_hash w s
               in case d hash_value of
                    Some names \<Rightarrow> Inr (Found_in_functions names, dk)
                  | None \<Rightarrow> Inr (String_not_found, dk))
          | Print \<Rightarrow> Inr (Dump d (card (dom d)), dk)
          | Info \<Rightarrow> Inr (Database_size (card (dom d)), dk)
          | NoCommand \<Rightarrow> Inr (Unknown_command, dk)))"

subsection \<open>Notions used in the statements\<close>

text \<open>
  The hash of a file's bytes, as \<^verbatim>\<open>get_file_hash_xx\<close> computes it block by block, when
  the file can be opened.
\<close>

definition file_hash :: "world \<Rightarrow> path \<Rightarrow> digest option" where
  "file_hash w filename = map_option (xxh64 w) (read_bytes w filename)"

text \<open>
  Processing files one after the other, each to the end, up to the first one that raises.
\<close>

fun process_files :: "world \<Rightarrow> args \<Rightarrow> state \<Rightarrow> path list \<Rightarrow> state result" where
  "process_files w a st [] = Inr st"
| "process_files w a st (fp # fs) =
     (case process_file w a fp st of
        Inl raised \<Rightarrow> Inl raised
      | Inr st1 \<Rightarrow> process_files w a st1 fs)"

text \<open>Every file of a list can be opened and parsed.\<close>

definition all_readable :: "world \<Rightarrow> path list \<Rightarrow> bool" where
  "all_readable w fs \<longleftrightarrow> (\<forall>fp \<in> set fs. read_bytes w fp \<noteq> None \<and> parse w fp \<noteq> None)"

text \<open>
  The number of files the loop lets in when the list has \<open>n\<close> files: all of them, or
  those up to the one during which the first Ctrl+C arrives.
\<close>

definition files_done :: "world \<Rightarrow> nat \<Rightarrow> nat" where
  "files_done w n = length (takeWhile (\<lambda>j. \<not> sigint w j) [0..<n])"

text \<open>
  A file parses, and every qualifying literal of every function declaration of it is in
  the index, under its hash, with the name of the function.
\<close>

definition folded_in :: "world \<Rightarrow> path \<Rightarrow> strdb_t \<Rightarrow> bool" where
  "folded_in w filepath d \<longleftrightarrow>
     (case parse w filepath of
        None \<Rightarrow> False
      | Some nodes \<Rightarrow>
          (\<forall>n \<in> set nodes. node_kind n = FUNCTION_DECL \<longrightarrow>
             (\<forall>s \<in> set (literals n).
                case d (get_hash w s) of
                  None \<Rightarrow> False
                | Some names \<Rightarrow> node_spelling n \<in> names)))"

text \<open>No key of the index has an empty set of names.\<close>

definition names_nonempty :: "strdb_t \<Rightarrow> bool" where
  "names_nonempty d \<longleftrightarrow> {} \<notin> ran d"

text \<open>An index keeps every key of another and, under it, at least the same names.\<close>

definition grows :: "strdb_t \<Rightarrow> strdb_t \<Rightarrow> bool" where
  "grows d d' \<longleftrightarrow> (\<forall>k \<in> dom d. k \<in> dom d' \<and> the (d k) \<subseteq> the (d' k))"

text \<open>
  The states of the database files that runs of the program lead to, starting with no
  database file at all. Each run is one command, in any environment and with any options,
  and ends normally or with an exception.
\<close>

inductive reachable :: "disk \<Rightarrow> bool" where
  no_files: "reachable Map.empty"
| run: "reachable dk \<Longrightarrow> main w a dk = Inr (out, dk') \<Longrightarrow> reachable dk'"
| died: "reachable dk \<Longrightarrow> main w a dk = Inl (e, dk') \<Longrightarrow> reachable dk'"

subsection \<open>A small source tree for the examples\<close>

text \<open>
  A directory with \<^verbatim>\<open>demo.c\<close>, \<^verbatim>\<open>one.c\<close> and \<^verbatim>\<open>tool.py\<close>. \<^verbatim>\<open>demo.c\<close> has the
  function \<^verbatim>\<open>f\<close>, which holds four literals: a string of ten characters, one of eleven,
  one of twelve, and a number; \<^verbatim>\<open>one.c\<close> has the function \<^verbatim>\<open>g\<close>. The stand-in for xxh64
  is the length of the text. In \<open>demo_world\<close> no Ctrl+C arrives; in \<open>demo_world_int\<close> one
  arrives while the first file is processed. In \<open>demo_world_dir\<close> the directory also holds
  a subdirectory named \<^verbatim>\<open>vendor.c\<close>, which the walk lists after \<^verbatim>\<open>demo.c\<close> and which
  cannot be opened as a file; in \<open>demo_world_dir_int\<close> Ctrl+C arrives while that entry is
  processed.
\<close>

definition quoted :: "string \<Rightarrow> token" where
  "quoted body = \<lparr>token_kind = LITERAL, token_spelling = CHR 0x22 # body @ [CHR 0x22]\<rparr>"

definition demo_f :: node where
  "demo_f =
     \<lparr>node_kind = FUNCTION_DECL, node_spelling = ''f'',
      get_tokens =
        [\<lparr>token_kind = KEYWORD, token_spelling = ''void''\<rparr>,
         \<lparr>token_kind = IDENTIFIER, token_spelling = ''f''\<rparr>,
         quoted ''0123456789'',
         quoted ''0123456789A'',
         quoted ''0123456789AB'',
         \<lparr>token_kind = LITERAL, token_spelling = ''12345678901234567890''\<rparr>]\<rparr>"

definition demo_g :: node where
  "demo_g =
     \<lparr>node_kind = FUNCTION_DECL, node_spelling = ''g'',
      get_tokens =
        [\<lparr>token_kind = IDENTIFIER, token_spelling = ''puts''\<rparr>,
         quoted ''0123456789AB'',
         quoted ''short'']\<rparr>"

definition demo_unit :: node where
  "demo_unit = \<lparr>node_kind = TRANSLATION_UNIT, node_spelling = ''demo.c'', get_tokens = []\<rparr>"

definition demo_world :: world where
  "demo_world =
     \<lparr>xxh64 = (\<lambda>s. of_nat (length s)),
      is_file = (\<lambda>p. p = ''demo.c'' \<or> p = ''one.c''),
      is_dir = (\<lambda>p. p = ''.''),
      rglob = (\<lambda>p. if p = ''.'' then [''demo.c'', ''one.c'', ''tool.py''] else []),
      read_bytes = (\<lambda>p. if p = ''demo.c'' then Some ''void f(){}''
                        else if p = ''one.c'' then Some ''int g;'' else None),
      parse = (\<lambda>p. if p = ''demo.c'' then Some [demo_unit, demo_f]
                   else if p = ''one.c'' then Some [demo_unit, demo_g] else None),
      perf_counter = (\<lambda>n. real n),
      sigint = (\<lambda>i. False)\<rparr>"

definition demo_world_int :: world where
  "demo_world_int = demo_world\<lparr>sigint := (\<lambda>i. i = 1)\<rparr>"

definition demo_world_dir :: world where
  "demo_world_dir =
     demo_world\<lparr>rglob := (\<lambda>p. if p = ''.'' then [''demo.c'', ''vendor.c'', ''one.c''] else [])\<rparr>"

definition demo_world_dir_int :: world where
  "demo_world_dir_int = demo_world_dir\<lparr>sigint := (\<lambda>i. i = 2)\<rparr>"

definition demo_args :: args where
  "demo_args = \<lparr>strdb = ''str2func.db'', filesdb = ''fh.db'', savetime = 1800, cmd = Info\<rparr>"

definition demo_disk :: disk where
  "demo_disk =
     [''str2func.db'' \<mapsto> Pickled (PDict [7 \<mapsto> {''h''}]), ''fh.db'' \<mapsto> Pickled (PSet {3})]"

section \<open>Properties\<close>

subsection \<open>Literals\<close>

lemma slice_1_m1_quoted: "slice_1_m1 (c # body @ [z]) = body"
  by (simp add: slice_1_m1_def)

lemma startswith_dquote_iff: "startswith_dquote s \<longleftrightarrow> take 1 s = [CHR 0x22]"
  by (cases s) (simp_all add: startswith_dquote_def dquote_def)

lemma qualifying_shape:
  assumes "qualifying t"
  shows "\<exists>z. token_spelling t = CHR 0x22 # slice_1_m1 (token_spelling t) @ [z]"
proof -
  from assms obtain r where r: "token_spelling t = CHR 0x22 # r" and len: "12 < length (token_spelling t)"
    by (cases "token_spelling t") (auto simp: qualifying_def startswith_dquote_def dquote_def)
  from r len have "r \<noteq> []" by auto
  then have "r = butlast r @ [last r]" by simp
  with r show ?thesis by (auto simp: slice_1_m1_def)
qed

lemma dom_merge: "dom (merge h f d) = insert h (dom d)"
  by (auto simp: merge_def split: option.splits)

lemma dom_foldl_merge:
  "dom (foldl (\<lambda>d s. merge (g s) f d) d xs) = dom d \<union> g ` set xs"
  by (induction xs arbitrary: d) (auto simp: dom_merge)

lemma dom_index_function: "dom (index_function w n d) = dom d \<union> xxh64 w ` set (literals n)"
  unfolding index_function_def get_hash_def by (rule dom_foldl_merge)

subsection \<open>merge and the loops over literals and nodes\<close>

lemma grows_refl: "grows d d"
  by (simp add: grows_def)

lemma grows_trans: "grows d1 d2 \<Longrightarrow> grows d2 d3 \<Longrightarrow> grows d1 d3"
  unfolding grows_def by (meson subset_trans)

lemma grows_merge: "grows d (merge h f d)"
  by (auto simp: grows_def merge_def split: option.splits)

lemma merge_has: "\<exists>names. merge h f d h = Some names \<and> f \<in> names"
  by (simp add: merge_def split: option.splits)

lemma names_nonempty_iff: "names_nonempty d \<longleftrightarrow> (\<forall>k names. d k = Some names \<longrightarrow> names \<noteq> {})"
  by (auto simp: names_nonempty_def ran_def)

lemma names_nonempty_empty: "names_nonempty Map.empty"
  by (simp add: names_nonempty_def)

lemma names_nonempty_merge: "names_nonempty d \<Longrightarrow> names_nonempty (merge h f d)"
  by (auto simp: names_nonempty_iff merge_def split: option.splits if_splits)

lemma grows_foldl_merge: "grows d (foldl (\<lambda>d s. merge (g s) f d) d xs)"
proof (induction xs arbitrary: d)
  case Nil
  show ?case by (simp add: grows_refl)
next
  case (Cons x xs)
  have "grows d (merge (g x) f d)" by (rule grows_merge)
  moreover have "grows (merge (g x) f d) (foldl (\<lambda>d s. merge (g s) f d) (merge (g x) f d) xs)"
    by (rule Cons.IH)
  ultimately show ?case by (simp add: grows_trans)
qed

lemma grows_index_function: "grows d (index_function w n d)"
  unfolding index_function_def by (rule grows_foldl_merge)

lemma grows_index_nodes: "grows d (index_nodes w ns d)"
  unfolding index_nodes_def
proof (induction ns arbitrary: d)
  case Nil
  show ?case by (simp add: grows_refl)
next
  case (Cons n ns)
  show ?case
    using Cons.IH [of "if node_kind n = FUNCTION_DECL then index_function w n d else d"]
      grows_index_function [of d w n]
    by (auto intro: grows_trans)
qed

lemma names_nonempty_foldl_merge:
  "names_nonempty d \<Longrightarrow> names_nonempty (foldl (\<lambda>d s. merge (g s) f d) d xs)"
  by (induction xs arbitrary: d) (simp_all add: names_nonempty_merge)

lemma names_nonempty_index_function:
  "names_nonempty d \<Longrightarrow> names_nonempty (index_function w n d)"
  unfolding index_function_def by (rule names_nonempty_foldl_merge)

lemma names_nonempty_index_nodes:
  "names_nonempty d \<Longrightarrow> names_nonempty (index_nodes w ns d)"
  unfolding index_nodes_def
  by (induction ns arbitrary: d) (simp_all add: names_nonempty_index_function)

text \<open>A name under a key: the notion behind \<open>folded_in\<close>.\<close>

lemma grows_has:
  assumes "grows d d'" "d k = Some names" "f \<in> names"
  shows "\<exists>names'. d' k = Some names' \<and> f \<in> names'"
proof -
  from assms(2) have "k \<in> dom d" by auto
  with assms(1) have k: "k \<in> dom d'" and sub: "the (d k) \<subseteq> the (d' k)"
    by (auto simp: grows_def)
  from k obtain names' where "d' k = Some names'" by auto
  with sub assms(2,3) show ?thesis by auto
qed

lemma foldl_merge_has:
  "s \<in> set xs \<Longrightarrow> \<exists>names. foldl (\<lambda>d s. merge (g s) f d) d xs (g s) = Some names \<and> f \<in> names"
proof (induction xs arbitrary: d)
  case Nil
  then show ?case by simp
next
  case (Cons x xs)
  show ?case
  proof (cases "s \<in> set xs")
    case True
    then show ?thesis using Cons.IH by simp
  next
    case False
    with Cons.prems have "s = x" by simp
    obtain names where "merge (g x) f d (g x) = Some names" "f \<in> names"
      using merge_has by blast
    then show ?thesis
      using grows_has [OF grows_foldl_merge [of "merge (g x) f d" g f xs]] \<open>s = x\<close> by simp
  qed
qed

lemma index_function_has:
  "s \<in> set (literals n) \<Longrightarrow>
   \<exists>names. index_function w n d (get_hash w s) = Some names \<and> node_spelling n \<in> names"
  unfolding index_function_def by (rule foldl_merge_has)

lemma index_nodes_has:
  "n \<in> set ns \<Longrightarrow> node_kind n = FUNCTION_DECL \<Longrightarrow> s \<in> set (literals n) \<Longrightarrow>
   \<exists>names. index_nodes w ns d (get_hash w s) = Some names \<and> node_spelling n \<in> names"
proof (induction ns arbitrary: d)
  case Nil
  then show ?case by simp
next
  case (Cons m ns)
  let ?d = "if node_kind m = FUNCTION_DECL then index_function w m d else d"
  have step: "index_nodes w (m # ns) d = index_nodes w ns ?d"
    by (simp add: index_nodes_def)
  show ?case
  proof (cases "n \<in> set ns")
    case True
    then show ?thesis using Cons.IH Cons.prems step by simp
  next
    case False
    with Cons.prems have "n = m" by simp
    with Cons.prems obtain names where "?d (get_hash w s) = Some names" "node_spelling n \<in> names"
      using index_function_has [of s n w d] by auto
    then show ?thesis
      using grows_has [OF grows_index_nodes [of ?d w ns]] step by simp
  qed
qed

lemma folded_in_iff:
  "folded_in w p d \<longleftrightarrow>
     (\<exists>ns. parse w p = Some ns \<and>
        (\<forall>n \<in> set ns. node_kind n = FUNCTION_DECL \<longrightarrow>
           (\<forall>s \<in> set (literals n).
              \<exists>names. d (get_hash w s) = Some names \<and> node_spelling n \<in> names)))"
proof -
  have "(case d k of None \<Rightarrow> False | Some names \<Rightarrow> x \<in> names) \<longleftrightarrow>
        (\<exists>names. d k = Some names \<and> x \<in> names)" for k x
    by (cases "d k") simp_all
  then show ?thesis unfolding folded_in_def by (cases "parse w p") simp_all
qed

lemma folded_in_index_nodes: "parse w p = Some ns \<Longrightarrow> folded_in w p (index_nodes w ns d)"
  unfolding folded_in_iff using index_nodes_has by blast

lemma folded_in_grows:
  assumes "grows d d'" "folded_in w p d"
  shows "folded_in w p d'"
proof -
  from assms(2) obtain ns where ns: "parse w p = Some ns"
    and has: "\<And>n s. n \<in> set ns \<Longrightarrow> node_kind n = FUNCTION_DECL \<Longrightarrow> s \<in> set (literals n) \<Longrightarrow>
      \<exists>names. d (get_hash w s) = Some names \<and> node_spelling n \<in> names"
    unfolding folded_in_iff by blast
  have "\<exists>names. d' (get_hash w s) = Some names \<and> node_spelling n \<in> names"
    if "n \<in> set ns" "node_kind n = FUNCTION_DECL" "s \<in> set (literals n)" for n s
  proof -
    from has [OF that] obtain names where "d (get_hash w s) = Some names" "node_spelling n \<in> names"
      by blast
    then show ?thesis by (rule grows_has [OF assms(1)])
  qed
  with ns show ?thesis unfolding folded_in_iff by blast
qed

text \<open>Where a name under a key comes from.\<close>

lemma merge_origin:
  "merge h f d k = Some names \<Longrightarrow> x \<in> names \<Longrightarrow>
   (\<exists>old. d k = Some old \<and> x \<in> old) \<or> (k = h \<and> x = f)"
  by (auto simp: merge_def split: option.splits if_splits)

lemma foldl_merge_origin:
  "foldl (\<lambda>d s. merge (g s) f d) d xs k = Some names \<Longrightarrow> x \<in> names \<Longrightarrow>
   (\<exists>old. d k = Some old \<and> x \<in> old) \<or> (k \<in> g ` set xs \<and> x = f)"
proof (induction xs arbitrary: d)
  case Nil
  then show ?case by simp
next
  case (Cons y ys)
  from Cons.IH [of "merge (g y) f d"] Cons.prems
  have "(\<exists>old. merge (g y) f d k = Some old \<and> x \<in> old) \<or> (k \<in> g ` set ys \<and> x = f)"
    by simp
  then show ?case
    using merge_origin [of "g y" f d k _ x] by auto
qed

lemma index_nodes_origin:
  "index_nodes w ns d k = Some names \<Longrightarrow> x \<in> names \<Longrightarrow>
   (\<exists>old. d k = Some old \<and> x \<in> old) \<or>
   (\<exists>n \<in> set ns. node_kind n = FUNCTION_DECL \<and> node_spelling n = x
                 \<and> k \<in> get_hash w ` set (literals n))"
proof (induction ns arbitrary: d)
  case Nil
  then show ?case by (simp add: index_nodes_def)
next
  case (Cons m ns)
  let ?d = "if node_kind m = FUNCTION_DECL then index_function w m d else d"
  have step: "index_nodes w (m # ns) d = index_nodes w ns ?d"
    by (simp add: index_nodes_def)
  from Cons.IH [of ?d] Cons.prems step
  consider old where "?d k = Some old" "x \<in> old"
    | n where "n \<in> set ns" "node_kind n = FUNCTION_DECL" "node_spelling n = x"
        "k \<in> get_hash w ` set (literals n)"
    by auto
  then show ?case
  proof cases
    case 1
    show ?thesis
    proof (cases "node_kind m = FUNCTION_DECL")
      case True
      with 1 have "index_function w m d k = Some old" by simp
      from foldl_merge_origin [OF this [unfolded index_function_def] 1(2)] True
      show ?thesis by auto
    next
      case False
      with 1 show ?thesis by auto
    qed
  next
    case 2
    then show ?thesis by auto
  qed
qed

lemma index_nodes_append:
  "index_nodes w (xs @ ys) d = index_nodes w ys (index_nodes w xs d)"
  by (simp add: index_nodes_def)

lemma index_nodes_no_literals:
  "\<forall>n \<in> set ns. node_kind n = FUNCTION_DECL \<longrightarrow> literals n = [] \<Longrightarrow> index_nodes w ns d = d"
  by (induction ns arbitrary: d) (simp_all add: index_nodes_def index_function_def)

subsection \<open>Hashing and processing one file\<close>

lemma foldl_append_concat: "foldl (\<lambda>h block. h @ block) acc xs = acc @ concat xs"
  by (induction xs arbitrary: acc) simp_all

lemma concat_read_blocks: "0 < n \<Longrightarrow> concat (read_blocks n bs) = bs"
proof (induction n bs rule: read_blocks.induct)
  case (1 blocksize bs)
  then show ?case
    by (subst read_blocks.simps) simp
qed

lemma size_read_blocks: "0 < n \<Longrightarrow> sum_list (map length (read_blocks n bs)) = length bs"
proof (induction n bs rule: read_blocks.induct)
  case (1 blocksize bs)
  then show ?case
    by (subst read_blocks.simps) auto
qed

lemma get_file_hash_xx_eq:
  "get_file_hash_xx w filename st =
     (case read_bytes w filename of
        None \<Rightarrow> Inl (OSError, on_disk st)
      | Some bytes \<Rightarrow>
          Inr (xxh64 w bytes,
               st\<lparr>files_number := files_number st + 1,
                  files_size := files_size st + length bytes\<rparr>))"
  by (simp add: get_file_hash_xx_def Let_def foldl_append_concat concat_read_blocks
      size_read_blocks split: option.splits)

text \<open>The ways \<^verbatim>\<open>process_file\<close> ends.\<close>

lemma process_file_unreadable:
  "read_bytes w p = None \<Longrightarrow> process_file w a p st = Inl (OSError, on_disk st)"
  by (simp add: process_file_def get_file_hash_xx_eq)

lemma process_file_skip:
  "file_hash w p = Some h \<Longrightarrow> h \<in> fdb st \<Longrightarrow>
   process_file w a p st =
     Inr (st\<lparr>files_number := files_number st + 1,
             files_size := files_size st + length (the (read_bytes w p))\<rparr>)"
  by (auto simp: process_file_def get_file_hash_xx_eq file_hash_def)

lemma process_file_unparsable:
  "file_hash w p = Some h \<Longrightarrow> h \<notin> fdb st \<Longrightarrow> parse w p = None \<Longrightarrow>
   process_file w a p st = Inl (TranslationUnitLoadError, on_disk st)"
  by (auto simp: process_file_def get_file_hash_xx_eq file_hash_def)

lemma process_file_Inl:
  assumes "process_file w a p st = Inl (e, dk)"
  shows "dk = on_disk st \<and> (read_bytes w p = None \<or> parse w p = None)"
  using assms
  by (auto simp: process_file_def get_file_hash_xx_eq Let_def split: option.splits if_splits)

lemma process_file_readable:
  assumes "read_bytes w p \<noteq> None" "parse w p \<noteq> None"
  shows "\<exists>st'. process_file w a p st = Inr st'"
  using assms
  by (auto simp: process_file_def get_file_hash_xx_eq Let_def split: option.splits)

lemma process_file_Inr_hash:
  assumes "process_file w a p st = Inr st'"
  shows "\<exists>h. file_hash w p = Some h \<and> fdb st' = insert h (fdb st)"
  using assms
  by (auto simp: process_file_def get_file_hash_xx_eq Let_def file_hash_def save_all_def
      split: option.splits if_splits)

lemma fdb_process_file:
  "process_file w a p st = Inr st' \<Longrightarrow> file_hash w p = Some h \<Longrightarrow> fdb st' = insert h (fdb st)"
  using process_file_Inr_hash by fastforce

lemma db_process_file_known:
  assumes "process_file w a p st = Inr st'" "file_hash w p = Some h" "h \<in> fdb st"
  shows "db st' = db st \<and> on_disk st' = on_disk st \<and> save_time st' = save_time st"
  using assms by (auto simp: process_file_skip)

lemma db_process_file_new:
  assumes "process_file w a p st = Inr st'" "file_hash w p = Some h" "h \<notin> fdb st"
  shows "\<exists>ns. parse w p = Some ns \<and> db st' = index_nodes w ns (db st)"
  using assms
  by (auto simp: process_file_def get_file_hash_xx_eq Let_def file_hash_def save_all_def
      split: option.splits if_splits)

lemma interrupt_process_file:
  "process_file w a p st = Inr st' \<Longrightarrow> interrupt st' = interrupt st"
  by (auto simp: process_file_def get_file_hash_xx_eq Let_def save_all_def
      split: option.splits if_splits)

lemma process_file_interrupt:
  "process_file w a p (st\<lparr>interrupt := b\<rparr>) =
     (case process_file w a p st of
        Inl raised \<Rightarrow> Inl raised
      | Inr st' \<Rightarrow> Inr (st'\<lparr>interrupt := b\<rparr>))"
  by (simp add: process_file_def get_file_hash_xx_eq Let_def save_all_def split: option.splits)

lemma process_file_signal_handler:
  "process_file w a p (signal_handler st) =
     (case process_file w a p st of
        Inl raised \<Rightarrow> Inl raised
      | Inr st' \<Rightarrow> Inr (signal_handler st'))"
  by (cases "process_file w a p st") (simp_all add: signal_handler_def process_file_interrupt)

lemma process_file_twice:
  assumes "process_file w a p st = Inr st'"
  shows "process_file w a p st' =
     Inr (st'\<lparr>files_number := files_number st' + 1,
              files_size := files_size st' + length (the (read_bytes w p))\<rparr>)"
proof -
  from process_file_Inr_hash [OF assms] obtain h
    where "file_hash w p = Some h" "fdb st' = insert h (fdb st)" by blast
  then show ?thesis by (simp add: process_file_skip)
qed

lemma on_disk_process_file:
  "process_file w a p st = Inr st' \<Longrightarrow> q \<noteq> strdb a \<Longrightarrow> q \<noteq> filesdb a \<Longrightarrow>
   on_disk st' q = on_disk st q"
  by (auto simp: process_file_def get_file_hash_xx_eq Let_def save_all_def save_db_def
      pickle_dump_def open_wb_def split: option.splits if_splits)

lemma grows_process_file: "process_file w a p st = Inr st' \<Longrightarrow> grows (db st) (db st')"
  by (auto simp: process_file_def get_file_hash_xx_eq Let_def save_all_def grows_refl
      grows_index_nodes split: option.splits if_splits)

lemma names_nonempty_process_file:
  "process_file w a p st = Inr st' \<Longrightarrow> names_nonempty (db st) \<Longrightarrow> names_nonempty (db st')"
  by (auto simp: process_file_def get_file_hash_xx_eq Let_def save_all_def
      names_nonempty_index_nodes split: option.splits if_splits)

subsection \<open>Processing a list of files\<close>

lemma process_files_append:
  "process_files w a st (xs @ ys) =
     (case process_files w a st xs of
        Inl raised \<Rightarrow> Inl raised
      | Inr st1 \<Rightarrow> process_files w a st1 ys)"
  by (induction xs arbitrary: st) (simp_all split: sum.splits)

lemma process_files_readable:
  "all_readable w fs \<Longrightarrow> \<exists>S. process_files w a st fs = Inr S"
proof (induction fs arbitrary: st)
  case Nil
  show ?case by simp
next
  case (Cons f fs)
  from Cons.prems have "read_bytes w f \<noteq> None" "parse w f \<noteq> None" and rest: "all_readable w fs"
    by (simp_all add: all_readable_def)
  from process_file_readable [OF this(1,2)] obtain st1 where "process_file w a f st = Inr st1"
    by blast
  with Cons.IH [OF rest, of st1] show ?case by simp
qed

text \<open>
  A list of files that raises does so at one of its files, after the files before it were
  processed to the end, and leaves the database files as they were when that file came up.
\<close>

lemma process_files_Inl:
  assumes "process_files w a st fs = Inl (e, dk)"
  shows "\<exists>j < length fs. \<exists>S. process_files w a st (take j fs) = Inr S \<and> dk = on_disk S
           \<and> process_file w a (fs ! j) S = Inl (e, dk)
           \<and> (read_bytes w (fs ! j) = None \<or> parse w (fs ! j) = None)"
  using assms
proof (induction fs arbitrary: st)
  case Nil
  then show ?case by simp
next
  case (Cons f fs)
  show ?case
  proof (cases "process_file w a f st")
    case (Inl raised)
    with Cons.prems have r: "process_file w a f st = Inl (e, dk)" by simp
    from process_file_Inl [OF r] r show ?thesis
      by (intro exI [of _ 0] exI [of _ st]) simp
  next
    case (Inr st1)
    with Cons.prems have "process_files w a st1 fs = Inl (e, dk)" by simp
    from Cons.IH [OF this] obtain j S where j: "j < length fs"
      and S: "process_files w a st1 (take j fs) = Inr S" "dk = on_disk S"
        "process_file w a (fs ! j) S = Inl (e, dk)"
        "read_bytes w (fs ! j) = None \<or> parse w (fs ! j) = None"
      by blast
    with Inr show ?thesis
      by (intro exI [of _ "Suc j"] exI [of _ S]) simp
  qed
qed

lemma fdb_process_files:
  "process_files w a st fs = Inr S \<Longrightarrow>
   fdb S = fdb st \<union> {h. \<exists>fp \<in> set fs. file_hash w fp = Some h}"
proof (induction fs arbitrary: st)
  case Nil
  then show ?case by simp
next
  case (Cons f fs)
  from Cons.prems obtain st1 where f: "process_file w a f st = Inr st1"
    and rest: "process_files w a st1 fs = Inr S"
    by (cases "process_file w a f st") simp_all
  from process_file_Inr_hash [OF f] obtain h
    where h: "file_hash w f = Some h" "fdb st1 = insert h (fdb st)" by blast
  from Cons.IH [OF rest] h show ?case by auto
qed

lemma interrupt_process_files:
  "process_files w a st fs = Inr S \<Longrightarrow> interrupt S = interrupt st"
proof (induction fs arbitrary: st)
  case Nil
  then show ?case by simp
next
  case (Cons f fs)
  from Cons.prems obtain st1 where f: "process_file w a f st = Inr st1"
    and rest: "process_files w a st1 fs = Inr S"
    by (cases "process_file w a f st") simp_all
  from Cons.IH [OF rest] interrupt_process_file [OF f] show ?case by simp
qed

lemma on_disk_process_files:
  "process_files w a st fs = Inr S \<Longrightarrow> q \<noteq> strdb a \<Longrightarrow> q \<noteq> filesdb a \<Longrightarrow>
   on_disk S q = on_disk st q"
proof (induction fs arbitrary: st)
  case Nil
  then show ?case by simp
next
  case (Cons f fs)
  from Cons.prems obtain st1 where f: "process_file w a f st = Inr st1"
    and rest: "process_files w a st1 fs = Inr S"
    by (cases "process_file w a f st") simp_all
  from Cons.IH [OF rest Cons.prems(2,3)] on_disk_process_file [OF f Cons.prems(2,3)]
  show ?case by simp
qed

lemma grows_process_files:
  "process_files w a st fs = Inr S \<Longrightarrow> grows (db st) (db S)"
proof (induction fs arbitrary: st)
  case Nil
  then show ?case by (simp add: grows_refl)
next
  case (Cons f fs)
  from Cons.prems obtain st1 where f: "process_file w a f st = Inr st1"
    and rest: "process_files w a st1 fs = Inr S"
    by (cases "process_file w a f st") simp_all
  from grows_trans [OF grows_process_file [OF f] Cons.IH [OF rest]] show ?case .
qed

lemma names_nonempty_process_files:
  "process_files w a st fs = Inr S \<Longrightarrow> names_nonempty (db st) \<Longrightarrow> names_nonempty (db S)"
proof (induction fs arbitrary: st)
  case Nil
  then show ?case by simp
next
  case (Cons f fs)
  from Cons.prems obtain st1 where f: "process_file w a f st = Inr st1"
    and rest: "process_files w a st1 fs = Inr S"
    by (cases "process_file w a f st") simp_all
  from Cons.IH [OF rest names_nonempty_process_file [OF f Cons.prems(2)]] show ?case .
qed

text \<open>The tables that come out depend on the tables that go in, not on the rest of the state.\<close>

lemma process_file_Inr_iff:
  "(\<exists>st1. process_file w a p st = Inr st1) \<longleftrightarrow>
     (\<exists>h. file_hash w p = Some h \<and> (h \<in> fdb st \<or> parse w p \<noteq> None))"
  by (cases "read_bytes w p"; cases "parse w p")
     (simp_all add: process_file_def get_file_hash_xx_eq file_hash_def Let_def)

lemma process_file_cong:
  assumes "process_file w a p st = Inr st1" "db st' = db st" "fdb st' = fdb st"
  shows "\<exists>st1'. process_file w a' p st' = Inr st1' \<and> db st1' = db st1 \<and> fdb st1' = fdb st1"
proof -
  from process_file_Inr_hash [OF assms(1)] obtain h
    where h: "file_hash w p = Some h" "fdb st1 = insert h (fdb st)" by blast
  from assms(1) have "\<exists>st1. process_file w a p st = Inr st1" by blast
  then have "h \<in> fdb st \<or> parse w p \<noteq> None"
    using h(1) by (simp add: process_file_Inr_iff)
  then have "\<exists>st1'. process_file w a' p st' = Inr st1'"
    using h(1) assms(3) by (simp add: process_file_Inr_iff)
  then obtain st1' where r: "process_file w a' p st' = Inr st1'" by blast
  have f: "fdb st1' = fdb st1"
    using fdb_process_file [OF r h(1)] h(2) assms(3) by simp
  have "db st1' = db st1"
  proof (cases "h \<in> fdb st")
    case True
    with db_process_file_known [OF assms(1) h(1)] db_process_file_known [OF r h(1)] assms(2,3)
    show ?thesis by simp
  next
    case False
    with db_process_file_new [OF assms(1) h(1)] db_process_file_new [OF r h(1)] assms(2,3)
    show ?thesis by auto
  qed
  with r f show ?thesis by blast
qed

lemma process_files_cong:
  assumes "process_files w a st fs = Inr S" "db st' = db st" "fdb st' = fdb st"
  shows "\<exists>S'. process_files w a' st' fs = Inr S' \<and> db S' = db S \<and> fdb S' = fdb S"
  using assms
proof (induction fs arbitrary: st st')
  case Nil
  then show ?case by simp
next
  case (Cons f fs)
  from Cons.prems(1) obtain st1 where f: "process_file w a f st = Inr st1"
    and rest: "process_files w a st1 fs = Inr S"
    by (cases "process_file w a f st") simp_all
  from process_file_cong [OF f Cons.prems(2,3)] obtain st1'
    where f': "process_file w a' f st' = Inr st1'" "db st1' = db st1" "fdb st1' = fdb st1"
    by blast
  from Cons.IH [OF rest f'(2,3)] f'(1) show ?case by simp
qed

lemma process_files_known:
  assumes "\<forall>fp \<in> set fs. \<exists>h. file_hash w fp = Some h \<and> h \<in> fdb st"
  shows "\<exists>S. process_files w a st fs = Inr S \<and> db S = db st \<and> fdb S = fdb st
           \<and> on_disk S = on_disk st"
  using assms
proof (induction fs arbitrary: st)
  case Nil
  show ?case by simp
next
  case (Cons f fs)
  from Cons.prems obtain h where h: "file_hash w f = Some h" "h \<in> fdb st" by auto
  let ?st = "st\<lparr>files_number := files_number st + 1,
                files_size := files_size st + length (the (read_bytes w f))\<rparr>"
  have f: "process_file w a f st = Inr ?st" using h by (rule process_file_skip)
  from Cons.prems have "\<forall>fp \<in> set fs. \<exists>h. file_hash w fp = Some h \<and> h \<in> fdb ?st" by simp
  from Cons.IH [OF this] f show ?case by simp
qed

lemma process_files_folded_in:
  assumes "process_files w a st fs = Inr S" "i < length fs"
    and "file_hash w (fs ! i) = Some h"
    and "h \<notin> fdb st \<union> {h. \<exists>fp \<in> set (take i fs). file_hash w fp = Some h}"
  shows "folded_in w (fs ! i) (db S)"
proof -
  have split: "fs = take i fs @ (fs ! i) # drop (Suc i) fs"
    using assms(2) by (simp add: id_take_nth_drop)
  from assms(1) have "process_files w a st (take i fs @ (fs ! i) # drop (Suc i) fs) = Inr S"
    using split by simp
  then obtain pre mid where pre: "process_files w a st (take i fs) = Inr pre"
    and mid: "process_file w a (fs ! i) pre = Inr mid"
    and rest: "process_files w a mid (drop (Suc i) fs) = Inr S"
    by (auto simp: process_files_append split: sum.splits)
  from assms(4) have "h \<notin> fdb pre"
    by (simp add: fdb_process_files [OF pre])
  from db_process_file_new [OF mid assms(3) this] obtain ns
    where "parse w (fs ! i) = Some ns" "db mid = index_nodes w ns (db pre)" by blast
  then have "folded_in w (fs ! i) (db mid)"
    by (simp add: folded_in_index_nodes)
  with grows_process_files [OF rest] show ?thesis by (rule folded_in_grows)
qed

lemma process_file_origin:
  assumes "process_file w a f st = Inr st1" "db st1 k = Some names" "x \<in> names"
  shows "(\<exists>old. db st k = Some old \<and> x \<in> old) \<or>
         (\<exists>ns n. parse w f = Some ns \<and> n \<in> set ns \<and> node_kind n = FUNCTION_DECL
            \<and> node_spelling n = x \<and> k \<in> get_hash w ` set (literals n))"
proof -
  from process_file_Inr_hash [OF assms(1)] obtain h where h: "file_hash w f = Some h" by blast
  show ?thesis
  proof (cases "h \<in> fdb st")
    case True
    from db_process_file_known [OF assms(1) h True] assms(2,3) show ?thesis by auto
  next
    case False
    from db_process_file_new [OF assms(1) h False] obtain ns
      where ns: "parse w f = Some ns" "db st1 = index_nodes w ns (db st)" by blast
    with assms(2) have "index_nodes w ns (db st) k = Some names" by simp
    from index_nodes_origin [OF this assms(3)] ns(1) show ?thesis by blast
  qed
qed

lemma process_files_origin:
  "process_files w a st fs = Inr S \<Longrightarrow> db S k = Some names \<Longrightarrow> x \<in> names \<Longrightarrow>
   (\<exists>old. db st k = Some old \<and> x \<in> old) \<or>
   (\<exists>fp \<in> set fs. \<exists>ns n. parse w fp = Some ns \<and> n \<in> set ns \<and> node_kind n = FUNCTION_DECL
       \<and> node_spelling n = x \<and> k \<in> get_hash w ` set (literals n))"
proof (induction fs arbitrary: st)
  case Nil
  then show ?case by simp
next
  case (Cons f fs)
  from Cons.prems(1) obtain st1 where f: "process_file w a f st = Inr st1"
    and rest: "process_files w a st1 fs = Inr S"
    by (cases "process_file w a f st") simp_all
  from Cons.IH [OF rest Cons.prems(2,3)]
  consider old where "db st1 k = Some old" "x \<in> old"
    | fp ns n where "fp \<in> set fs" "parse w fp = Some ns" "n \<in> set ns"
        "node_kind n = FUNCTION_DECL" "node_spelling n = x" "k \<in> get_hash w ` set (literals n)"
    by blast
  then show ?case
  proof cases
    case 1
    from process_file_origin [OF f 1] show ?thesis by auto
  next
    case 2
    then have "\<exists>fp \<in> set (f # fs). \<exists>ns n. parse w fp = Some ns \<and> n \<in> set ns
        \<and> node_kind n = FUNCTION_DECL \<and> node_spelling n = x
        \<and> k \<in> get_hash w ` set (literals n)"
      by (intro bexI [of _ fp] exI [of _ ns] exI [of _ n]) simp_all
    then show ?thesis by (rule disjI2)
  qed
qed

subsection \<open>The loop and Ctrl+C\<close>

lemma files_loop_interrupted: "interrupt st \<Longrightarrow> files_loop w a efs st = Inr st"
  by (cases efs) auto

lemma files_loop_prefix:
  "\<not> interrupt st \<Longrightarrow>
   \<exists>b. files_loop w a (enumerate (Suc i) fs) (deliver w i st) =
        (case process_files w a st
                (take (length (takeWhile (\<lambda>j. \<not> sigint w j) [i..<i + length fs])) fs) of
           Inl raised \<Rightarrow> Inl raised
         | Inr S \<Rightarrow> Inr (S\<lparr>interrupt := b\<rparr>))"
proof (induction fs arbitrary: i st)
  case Nil
  then show ?case
    by (auto simp: deliver_def signal_handler_def intro: exI [of _ "sigint w i"])
next
  case (Cons f fs)
  have range: "[i..<i + length (f # fs)] = i # [Suc i..<Suc i + length fs]"
    by (simp add: upt_rec)
  show ?case
  proof (cases "sigint w i")
    case True
    then have "files_loop w a (enumerate (Suc i) (f # fs)) (deliver w i st)
        = Inr (st\<lparr>interrupt := True\<rparr>)"
      by (simp add: deliver_def signal_handler_def)
    with True range show ?thesis by auto
  next
    case False
    have dl: "process_file w a f (deliver w (Suc i) st) =
        (case process_file w a f st of
           Inl raised \<Rightarrow> Inl raised
         | Inr st1 \<Rightarrow> Inr (deliver w (Suc i) st1))"
      by (cases "process_file w a f st") (simp_all add: deliver_def process_file_signal_handler)
    show ?thesis
    proof (cases "process_file w a f st")
      case (Inl raised)
      with False Cons.prems dl
      have "files_loop w a (enumerate (Suc i) (f # fs)) (deliver w i st) = Inl raised"
        by (simp add: deliver_def)
      with False range Inl show ?thesis by simp
    next
      case (Inr st1)
      with False Cons.prems dl
      have step: "files_loop w a (enumerate (Suc i) (f # fs)) (deliver w i st) =
          files_loop w a (enumerate (Suc (Suc i)) fs) (deliver w (Suc i) st1)"
        by (simp add: deliver_def)
      from Cons.prems have "\<not> interrupt st1" by (simp add: interrupt_process_file [OF Inr])
      from Cons.IH [OF this, of "Suc i"] obtain b where
        "files_loop w a (enumerate (Suc (Suc i)) fs) (deliver w (Suc i) st1) =
          (case process_files w a st1
                  (take (length (takeWhile (\<lambda>j. \<not> sigint w j) [Suc i..<Suc i + length fs])) fs) of
             Inl raised \<Rightarrow> Inl raised
           | Inr S \<Rightarrow> Inr (S\<lparr>interrupt := b\<rparr>))" by blast
      with step False range Inr show ?thesis by auto
    qed
  qed
qed

lemma files_done_le: "files_done w n \<le> n"
  unfolding files_done_def using length_takeWhile_le [of "\<lambda>j. \<not> sigint w j" "[0..<n]"] by simp

lemma files_done_all:
  assumes "\<forall>j. \<not> sigint w j"
  shows "files_done w n = n"
proof -
  have "takeWhile (\<lambda>j. \<not> sigint w j) [0..<n] = [0..<n]"
    using assms by (subst takeWhile_eq_all_conv) simp
  then have "length (takeWhile (\<lambda>j. \<not> sigint w j) [0..<n]) = length [0..<n]"
    by (rule arg_cong)
  then show ?thesis unfolding files_done_def by simp
qed

lemma files_done_one: "\<not> sigint w 0 \<Longrightarrow> files_done w (Suc 0) = Suc 0"
  by (simp add: files_done_def)

subsection \<open>The database files\<close>

lemma save_all_on_disk:
  "on_disk (save_all a st) =
     (on_disk st)(strdb a \<mapsto> Pickled (PDict (db st)), filesdb a \<mapsto> Pickled (PSet (fdb st)))"
  by (simp add: save_all_def save_db_def pickle_dump_def open_wb_def)

lemma save_all_tables: "db (save_all a st) = db st" "fdb (save_all a st) = fdb st"
  by (simp_all add: save_all_def)

lemma load_after_save:
  "load_db (dk(p \<mapsto> Pickled x)) p = Inr x" "load_fdb (dk(p \<mapsto> Pickled x)) p = Inr x"
  "q \<noteq> p \<Longrightarrow> load_db (dk(p \<mapsto> c)) q = load_db dk q"
  "q \<noteq> p \<Longrightarrow> load_fdb (dk(p \<mapsto> c)) q = load_fdb dk q"
  by (simp_all add: load_db_def load_fdb_def pickle_load_def)

lemma empty_neq_map_upd: "Map.empty \<noteq> m(k \<mapsto> v)"
  by (metis map_upd_nonempty)

lemma initial_tables_restart:
  "cmd a = Parse True p \<Longrightarrow> initial_tables a dk = Inr (Map.empty, {})"
  by (simp add: initial_tables_def restart_def)

lemma initial_tables_load:
  "\<not> restart a \<Longrightarrow>
   initial_tables a dk = Inr (d, f) \<longleftrightarrow>
     load_db dk (strdb a) = Inr (PDict d) \<and> load_fdb dk (filesdb a) = Inr (PSet f)"
  by (auto simp: initial_tables_def split: sum.splits pyval.splits elim: as_dict.elims as_set.elims)

lemma initial_tables_no_files:
  "\<not> restart a \<Longrightarrow> initial_tables a Map.empty = Inr (Map.empty, {})"
  by (simp add: initial_tables_load load_db_def load_fdb_def)

subsection \<open>The commands\<close>

lemma process_path_prefix:
  assumes "\<not> interrupt st"
  shows "\<exists>b t. process_path w a p (deliver w 0 st) =
           (case process_files w a st
                   (take (files_done w (length (get_cpp_files w p))) (get_cpp_files w p)) of
              Inl raised \<Rightarrow> Inl raised
            | Inr S \<Rightarrow> Inr (S\<lparr>interrupt := b, ticks := t\<rparr>))"
proof (cases "get_cpp_files w p = []")
  case True
  then have "process_path w a p (deliver w 0 st) = Inr (st\<lparr>interrupt := sigint w 0, ticks := ticks st\<rparr>)"
    using assms by (simp add: process_path_def deliver_def signal_handler_def)
  with True show ?thesis
    by (intro exI [of _ "sigint w 0"] exI [of _ "ticks st"]) simp
next
  case False
  let ?fs = "take (files_done w (length (get_cpp_files w p))) (get_cpp_files w p)"
  from files_loop_prefix [OF assms, of w a 0 "get_cpp_files w p"] obtain b where
    loop: "files_loop w a (enumerate 1 (get_cpp_files w p)) (deliver w 0 st) =
       (case process_files w a st ?fs of
          Inl raised \<Rightarrow> Inl raised
        | Inr S \<Rightarrow> Inr (S\<lparr>interrupt := b\<rparr>))"
    by (auto simp: files_done_def)
  show ?thesis
  proof (cases "process_files w a st ?fs")
    case (Inl raised)
    with loop False show ?thesis by (simp add: process_path_def Let_def)
  next
    case (Inr S)
    with loop False
    have "process_path w a p (deliver w 0 st) = Inr (S\<lparr>interrupt := b, ticks := ticks S + 1\<rparr>)"
      by (simp add: process_path_def Let_def)
    with Inr show ?thesis
      by (intro exI [of _ b] exI [of _ "ticks S + 1"]) simp
  qed
qed

lemma start_state_simps [simp]:
  "db (start_state w d f dk) = d" "fdb (start_state w d f dk) = f"
  "interrupt (start_state w d f dk) = False" "on_disk (start_state w d f dk) = dk"
  by (simp_all add: start_state_def)

text \<open>
  The \<^verbatim>\<open>parse\<close> command, from the tables it starts with to the files it leaves: the first
  files of the list are processed, up to the one during which Ctrl+C arrives, and when none
  of them raises both tables are saved.
\<close>

lemma main_parse:
  fixes w :: world
  assumes "cmd a = Parse r p" "initial_tables a dk = Inr (d, f)"
  shows "main w a dk =
           (case process_files w a (start_state w d f dk)
                   (take (files_done w (length (get_cpp_files w p))) (get_cpp_files w p)) of
              Inl raised \<Rightarrow> Inl raised
            | Inr S \<Rightarrow>
                Inr (Database_size (card (dom (db S))),
                     dk(strdb a \<mapsto> Pickled (PDict (db S)), filesdb a \<mapsto> Pickled (PSet (fdb S)))))"
proof -
  let ?st = "start_state w d f dk"
  let ?fs = "take (files_done w (length (get_cpp_files w p))) (get_cpp_files w p)"
  have "\<not> interrupt ?st" by simp
  from process_path_prefix [OF this, of w a p] obtain b t where
    pp: "process_path w a p (deliver w 0 ?st) =
           (case process_files w a ?st ?fs of
              Inl raised \<Rightarrow> Inl raised
            | Inr S \<Rightarrow> Inr (S\<lparr>interrupt := b, ticks := t\<rparr>))" by blast
  show ?thesis
  proof (cases "process_files w a ?st ?fs")
    case (Inl raised)
    with pp assms show ?thesis by (simp add: main_def parse_command_def)
  next
    case (Inr S)
    have "(on_disk S)(strdb a \<mapsto> Pickled (PDict (db S)), filesdb a \<mapsto> Pickled (PSet (fdb S)))
        = dk(strdb a \<mapsto> Pickled (PDict (db S)), filesdb a \<mapsto> Pickled (PSet (fdb S)))"
      using on_disk_process_files [OF Inr] by (intro ext) simp
    with Inr pp assms show ?thesis
      by (simp add: main_def parse_command_def save_all_on_disk save_all_tables)
  qed
qed

lemma main_tables:
  "main w a dk = Inr (out, dk') \<Longrightarrow> \<exists>d f. initial_tables a dk = Inr (d, f)"
  by (cases "initial_tables a dk") (auto simp: main_def)

lemma main_find:
  assumes "cmd a = Find s" "load_db dk (strdb a) = Inr (PDict d)"
    "load_fdb dk (filesdb a) = Inr (PSet f)"
  shows "main w a dk =
           (case d (get_hash w s) of
              Some names \<Rightarrow> Inr (Found_in_functions names, dk)
            | None \<Rightarrow> Inr (String_not_found, dk))"
proof -
  from assms(1) have "\<not> restart a" by (simp add: restart_def)
  with assms(2,3) have "initial_tables a dk = Inr (d, f)" by (simp add: initial_tables_load)
  with assms(1) show ?thesis by (simp add: main_def Let_def)
qed

text \<open>A second \<^verbatim>\<open>parse\<close> run over files that are all known changes no database file.\<close>

lemma main_parse_known:
  fixes w :: world
  assumes "cmd a = Parse False q" "strdb a \<noteq> filesdb a"
    and "dk (strdb a) = Some (Pickled (PDict d))" "dk (filesdb a) = Some (Pickled (PSet f))"
    and "\<forall>fp \<in> set (get_cpp_files w q). \<exists>h. file_hash w fp = Some h \<and> h \<in> f"
  shows "main w a dk = Inr (Database_size (card (dom d)), dk)"
proof -
  let ?fs = "take (files_done w (length (get_cpp_files w q))) (get_cpp_files w q)"
  from assms(1) have "\<not> restart a" by (simp add: restart_def)
  moreover have "load_db dk (strdb a) = Inr (PDict d)" "load_fdb dk (filesdb a) = Inr (PSet f)"
    using assms(3,4) by (simp_all add: load_db_def load_fdb_def pickle_load_def)
  ultimately have it: "initial_tables a dk = Inr (d, f)" by (simp add: initial_tables_load)
  have "set ?fs \<subseteq> set (get_cpp_files w q)" by (rule set_take_subset)
  with assms(5) have "\<forall>fp \<in> set ?fs. \<exists>h. file_hash w fp = Some h \<and> h \<in> fdb (start_state w d f dk)"
    by auto
  from process_files_known [OF this, of a] obtain S
    where S: "process_files w a (start_state w d f dk) ?fs = Inr S" "db S = d" "fdb S = f"
    by auto
  have "dk(strdb a \<mapsto> Pickled (PDict d), filesdb a \<mapsto> Pickled (PSet f)) = dk"
    using assms(3,4) by (intro ext) simp
  with main_parse [where w = w, OF assms(1) it] S show ?thesis by simp
qed

subsection \<open>The clock and the signals\<close>

text \<open>The clock and the signals play no part in what is found, hashed and indexed.\<close>

lemma index_function_update:
  "index_function (w\<lparr>sigint := sg\<rparr>) = index_function w"
  "index_function (w\<lparr>perf_counter := pc\<rparr>) = index_function w"
  by (intro ext, simp add: index_function_def get_hash_def)+

lemma world_update_irrelevant:
  "get_cpp_files (w\<lparr>sigint := sg\<rparr>) p = get_cpp_files w p"
  "get_cpp_files (w\<lparr>perf_counter := pc\<rparr>) p = get_cpp_files w p"
  "file_hash (w\<lparr>sigint := sg\<rparr>) p = file_hash w p"
  "file_hash (w\<lparr>perf_counter := pc\<rparr>) p = file_hash w p"
  "index_nodes (w\<lparr>sigint := sg\<rparr>) ns d = index_nodes w ns d"
  "index_nodes (w\<lparr>perf_counter := pc\<rparr>) ns d = index_nodes w ns d"
  "get_hash (w\<lparr>sigint := sg\<rparr>) s = get_hash w s"
  "get_hash (w\<lparr>perf_counter := pc\<rparr>) s = get_hash w s"
  by (simp_all add: get_cpp_files_def file_hash_def index_nodes_def index_function_update
      get_hash_def cong: if_cong)

subsection \<open>Names under a key, across runs\<close>

lemma initial_tables_names:
  assumes "\<forall>q d. dk q = Some (Pickled (PDict d)) \<longrightarrow> names_nonempty d"
    and "initial_tables a dk = Inr (d, f)"
  shows "names_nonempty d"
proof (cases "restart a")
  case True
  with assms(2) have "d = Map.empty" by (auto simp: initial_tables_def)
  then show ?thesis by (simp add: names_nonempty_empty)
next
  case False
  with assms(2) have l: "load_db dk (strdb a) = Inr (PDict d)"
    by (simp add: initial_tables_load)
  show ?thesis
  proof (cases "dk (strdb a)")
    case None
    with l have "d = Map.empty" by (auto simp: load_db_def)
    then show ?thesis by (simp add: names_nonempty_empty)
  next
    case (Some c)
    with l have "dk (strdb a) = Some (Pickled (PDict d))"
      by (cases c) (simp_all add: load_db_def pickle_load_def)
    with assms(1) show ?thesis by blast
  qed
qed

text \<open>A timed save writes the index that is in memory.\<close>

lemma process_file_saves:
  assumes "process_file w a p st = Inr st'"
  shows "on_disk st' = on_disk st
       \<or> on_disk st' = (on_disk st)(strdb a \<mapsto> Pickled (PDict (db st')),
                                     filesdb a \<mapsto> Pickled (PSet (fdb st')))"
  using assms
  by (auto simp: process_file_def get_file_hash_xx_eq Let_def save_all_on_disk save_all_tables
      split: option.splits if_splits)

lemma process_file_disk_names:
  assumes "process_file w a p st = Inr st'" "names_nonempty (db st)"
    and "\<forall>q d. on_disk st q = Some (Pickled (PDict d)) \<longrightarrow> names_nonempty d"
  shows "\<forall>q d. on_disk st' q = Some (Pickled (PDict d)) \<longrightarrow> names_nonempty d"
proof -
  have n: "names_nonempty (db st')" using assms(1,2) by (rule names_nonempty_process_file)
  from process_file_saves [OF assms(1)] show ?thesis
  proof
    assume "on_disk st' = on_disk st"
    with assms(3) show ?thesis by simp
  next
    assume "on_disk st' = (on_disk st)(strdb a \<mapsto> Pickled (PDict (db st')),
                                     filesdb a \<mapsto> Pickled (PSet (fdb st')))"
    with assms(3) n show ?thesis by (auto split: if_splits)
  qed
qed

lemma process_files_disk_names:
  assumes "process_files w a st fs = Inr S" "names_nonempty (db st)"
    and "\<forall>q d. on_disk st q = Some (Pickled (PDict d)) \<longrightarrow> names_nonempty d"
  shows "\<forall>q d. on_disk S q = Some (Pickled (PDict d)) \<longrightarrow> names_nonempty d"
  using assms
proof (induction fs arbitrary: st)
  case Nil
  then show ?case by simp
next
  case (Cons f fs)
  from Cons.prems(1) obtain st1 where f: "process_file w a f st = Inr st1"
    and rest: "process_files w a st1 fs = Inr S"
    by (cases "process_file w a f st") simp_all
  from Cons.IH [OF rest names_nonempty_process_file [OF f Cons.prems(2)]
      process_file_disk_names [OF f Cons.prems(2,3)]]
  show ?case .
qed

lemma main_preserves_names:
  assumes inv: "\<forall>q d. dk q = Some (Pickled (PDict d)) \<longrightarrow> names_nonempty d"
    and m: "main w a dk = Inr (out, dk')"
  shows "\<forall>q d. dk' q = Some (Pickled (PDict d)) \<longrightarrow> names_nonempty d"
proof -
  from main_tables [OF m] obtain d f where it: "initial_tables a dk = Inr (d, f)" by blast
  from initial_tables_names [OF inv it] have d: "names_nonempty d" .
  show ?thesis
  proof (cases "cmd a")
    case (Parse r p)
    let ?fs = "take (files_done w (length (get_cpp_files w p))) (get_cpp_files w p)"
    from main_parse [where w = w, OF Parse it] m obtain S
      where S: "process_files w a (start_state w d f dk) ?fs = Inr S"
        and dk': "dk' = dk(strdb a \<mapsto> Pickled (PDict (db S)), filesdb a \<mapsto> Pickled (PSet (fdb S)))"
      by (cases "process_files w a (start_state w d f dk) ?fs") auto
    have "names_nonempty (db S)"
      using S by (rule names_nonempty_process_files) (simp add: d)
    with inv show ?thesis
      by (auto simp: dk' split: if_splits)
  next
    case (Find s)
    with m it have "dk' = dk" by (simp add: main_def Let_def split: option.splits)
    with inv show ?thesis by simp
  next
    case Print
    with m it have "dk' = dk" by (simp add: main_def)
    with inv show ?thesis by simp
  next
    case Info
    with m it have "dk' = dk" by (simp add: main_def)
    with inv show ?thesis by simp
  next
    case NoCommand
    with m it have "dk' = dk" by (simp add: main_def)
    with inv show ?thesis by simp
  qed
qed

text \<open>
  A run that ends with an exception leaves the database files as they were loaded, or as
  they were when the file that raised came up.
\<close>

lemma main_died:
  assumes "main w a dk = Inl (e, dk')"
  shows "dk' = dk \<or>
         (\<exists>r p d f j S. cmd a = Parse r p \<and> initial_tables a dk = Inr (d, f)
            \<and> j < files_done w (length (get_cpp_files w p))
            \<and> process_files w a (start_state w d f dk) (take j (get_cpp_files w p)) = Inr S
            \<and> dk' = on_disk S
            \<and> (read_bytes w (get_cpp_files w p ! j) = None
                 \<or> parse w (get_cpp_files w p ! j) = None))"
proof (cases "initial_tables a dk")
  case (Inl e')
  with assms show ?thesis by (simp add: main_def)
next
  case (Inr tables)
  then obtain d f where it: "initial_tables a dk = Inr (d, f)" by (cases tables) simp
  show ?thesis
  proof (cases "cmd a")
    case (Parse r p)
    let ?k = "files_done w (length (get_cpp_files w p))"
    let ?fs = "take ?k (get_cpp_files w p)"
    from main_parse [where w = w, OF Parse it] assms
    have "process_files w a (start_state w d f dk) ?fs = Inl (e, dk')"
      by (cases "process_files w a (start_state w d f dk) ?fs") auto
    from process_files_Inl [OF this] obtain j S where j: "j < length ?fs"
      and S: "process_files w a (start_state w d f dk) (take j ?fs) = Inr S" "dk' = on_disk S"
        "read_bytes w (?fs ! j) = None \<or> parse w (?fs ! j) = None"
      by blast
    from j have jk: "j < ?k" by simp
    then have "take j ?fs = take j (get_cpp_files w p)" "?fs ! j = get_cpp_files w p ! j"
      by (simp_all add: min_def)
    with S jk Parse it show ?thesis by auto
  next
    case (Find s)
    with assms it show ?thesis by (simp add: main_def Let_def split: option.splits)
  next
    case Print
    with assms it show ?thesis by (simp add: main_def)
  next
    case Info
    with assms it show ?thesis by (simp add: main_def)
  next
    case NoCommand
    with assms it show ?thesis by (simp add: main_def)
  qed
qed

lemma main_died_names:
  assumes inv: "\<forall>q d. dk q = Some (Pickled (PDict d)) \<longrightarrow> names_nonempty d"
    and m: "main w a dk = Inl (e, dk')"
  shows "\<forall>q d. dk' q = Some (Pickled (PDict d)) \<longrightarrow> names_nonempty d"
proof -
  from main_died [OF m] show ?thesis
  proof
    assume "dk' = dk"
    with inv show ?thesis by simp
  next
    assume "\<exists>r p d f j S. cmd a = Parse r p \<and> initial_tables a dk = Inr (d, f)
            \<and> j < files_done w (length (get_cpp_files w p))
            \<and> process_files w a (start_state w d f dk) (take j (get_cpp_files w p)) = Inr S
            \<and> dk' = on_disk S
            \<and> (read_bytes w (get_cpp_files w p ! j) = None
                 \<or> parse w (get_cpp_files w p ! j) = None)"
    then obtain p d f j S where it: "initial_tables a dk = Inr (d, f)"
      and S: "process_files w a (start_state w d f dk) (take j (get_cpp_files w p)) = Inr S"
      and dk': "dk' = on_disk S"
      by blast
    from initial_tables_names [OF inv it] have "names_nonempty (db (start_state w d f dk))"
      by simp
    from process_files_disk_names [OF S this] inv show ?thesis by (simp add: dk')
  qed
qed

lemma reachable_names:
  "reachable dk \<Longrightarrow> \<forall>q d. dk q = Some (Pickled (PDict d)) \<longrightarrow> names_nonempty d"
proof (induction rule: reachable.induct)
  case no_files
  show ?case by simp
next
  case (run dk w a out dk')
  from main_preserves_names [OF run.IH run.hyps(2)] show ?case .
next
  case (died dk w a e dk')
  from main_died_names [OF died.IH died.hyps(2)] show ?case .
qed

lemma main_found_names:
  assumes "main w a dk = Inr (Found_in_functions names, dk')"
  shows "\<exists>d f. initial_tables a dk = Inr (d, f) \<and> names \<in> ran d"
proof -
  from main_tables [OF assms] obtain d f where it: "initial_tables a dk = Inr (d, f)" by blast
  from assms it have "names \<in> ran d"
    by (cases "cmd a") (auto simp: main_def Let_def ran_def split: option.splits sum.splits)
  with it show ?thesis by blast
qed

lemma process_files_hashes:
  assumes "process_files w a st fs = Inr S" "fp \<in> set fs"
  shows "\<exists>h. file_hash w fp = Some h \<and> h \<in> fdb S"
  using assms
proof (induction fs arbitrary: st)
  case Nil
  then show ?case by simp
next
  case (Cons f fs)
  from Cons.prems(1) obtain st1 where f: "process_file w a f st = Inr st1"
    and rest: "process_files w a st1 fs = Inr S"
    by (cases "process_file w a f st") simp_all
  show ?case
  proof (cases "fp \<in> set fs")
    case True
    from Cons.IH [OF rest True] show ?thesis .
  next
    case False
    with Cons.prems(2) have "fp = f" by simp
    from process_file_Inr_hash [OF f] obtain h
      where h: "file_hash w f = Some h" "fdb st1 = insert h (fdb st)" by blast
    with fdb_process_files [OF rest] \<open>fp = f\<close> show ?thesis by auto
  qed
qed

lemma process_file_no_save:
  assumes "process_file w a p st = Inr st'"
    and "\<not> perf_counter w (ticks st) - save_time st > real_of_int (savetime a)"
  shows "on_disk st' = on_disk st"
  using assms
  by (auto simp: process_file_def get_file_hash_xx_eq Let_def split: option.splits if_splits)

text \<open>A \<^verbatim>\<open>parse\<close> run that ends with an exception.\<close>

lemma main_parse_died:
  fixes w :: world
  assumes "cmd a = Parse r p" "initial_tables a dk = Inr (d, f)"
    and "main w a dk = Inl (e, dk')"
  shows "\<exists>j < files_done w (length (get_cpp_files w p)). \<exists>S.
           process_files w a (start_state w d f dk) (take j (get_cpp_files w p)) = Inr S
           \<and> dk' = on_disk S
           \<and> (read_bytes w (get_cpp_files w p ! j) = None
                \<or> parse w (get_cpp_files w p ! j) = None)"
proof -
  from main_died [OF assms(3)] show ?thesis
  proof
    assume same: "dk' = dk"
    let ?k = "files_done w (length (get_cpp_files w p))"
    let ?fs = "take ?k (get_cpp_files w p)"
    from main_parse [where w = w, OF assms(1,2)] assms(3)
    have "process_files w a (start_state w d f dk) ?fs = Inl (e, dk')"
      by (cases "process_files w a (start_state w d f dk) ?fs") auto
    from process_files_Inl [OF this] obtain j S where j: "j < length ?fs"
      and S: "process_files w a (start_state w d f dk) (take j ?fs) = Inr S" "dk' = on_disk S"
        "read_bytes w (?fs ! j) = None \<or> parse w (?fs ! j) = None"
      by blast
    from j have jk: "j < ?k" by simp
    then have "take j ?fs = take j (get_cpp_files w p)" "?fs ! j = get_cpp_files w p ! j"
      by (simp_all add: min_def)
    with S jk show ?thesis by auto
  next
    assume "\<exists>r p d f j S. cmd a = Parse r p \<and> initial_tables a dk = Inr (d, f)
            \<and> j < files_done w (length (get_cpp_files w p))
            \<and> process_files w a (start_state w d f dk) (take j (get_cpp_files w p)) = Inr S
            \<and> dk' = on_disk S
            \<and> (read_bytes w (get_cpp_files w p ! j) = None
                 \<or> parse w (get_cpp_files w p ! j) = None)"
    with assms(1,2) show ?thesis by auto
  qed
qed

lemma main_parse_readable:
  fixes w :: world
  assumes "cmd a = Parse r p" "initial_tables a dk = Inr (d, f)"
    and "all_readable w (take (files_done w (length (get_cpp_files w p))) (get_cpp_files w p))"
  shows "\<exists>out dk'. main w a dk = Inr (out, dk')"
proof -
  from process_files_readable [OF assms(3)] obtain S where
    "process_files w a (start_state w d f dk)
       (take (files_done w (length (get_cpp_files w p))) (get_cpp_files w p)) = Inr S"
    by blast
  with main_parse [where w = w, OF assms(1,2)] show ?thesis by simp
qed

subsection \<open>The example tree, evaluated\<close>

lemma get_cpp_files_demo_missing: "get_cpp_files demo_world ''missing'' = []"
  by (simp add: get_cpp_files_def demo_world_def)

lemma get_cpp_files_demo: "get_cpp_files demo_world ''demo.c'' = [''demo.c'']"
  by (simp add: get_cpp_files_def demo_world_def path_suffix_def path_name_def)


lemma get_cpp_files_demo_vendor:
  "get_cpp_files demo_world_dir ''.'' = [''demo.c'', ''vendor.c'', ''one.c'']"
  by (simp add: get_cpp_files_def demo_world_dir_def demo_world_def path_suffix_def path_name_def)

lemma load_demo_disk:
  "load_db demo_disk ''str2func.db'' = Inr (PDict [7 \<mapsto> {''h''}])"
  "load_fdb demo_disk ''fh.db'' = Inr (PSet {3})"
  by (simp_all add: load_db_def load_fdb_def pickle_load_def demo_disk_def)

lemma files_done_demo: "files_done demo_world n = n" "files_done demo_world_dir n = n"
  by (rule files_done_all, simp add: demo_world_def demo_world_dir_def)+


lemma file_hash_demo: "file_hash demo_world ''demo.c'' = Some 10"
  by (simp add: file_hash_def demo_world_def)

lemma literals_demo_f: "literals demo_f = [''0123456789A'', ''0123456789AB'']"
  by (simp add: literals_def demo_f_def quoted_def qualifying_def startswith_dquote_def
      dquote_def slice_1_m1_def)

lemma index_nodes_demo:
  "index_nodes demo_world [demo_unit, demo_f] Map.empty = [11 \<mapsto> {''f''}, 12 \<mapsto> {''f''}]"
proof -
  have "index_function demo_world demo_f Map.empty = [11 \<mapsto> {''f''}, 12 \<mapsto> {''f''}]"
    by (simp add: index_function_def literals_demo_f get_hash_def merge_def)
       (simp add: demo_world_def demo_f_def)
  then show ?thesis
    by (simp add: index_nodes_def demo_unit_def) (simp add: demo_f_def)
qed

text \<open>The example worlds hold the same \<^verbatim>\<open>demo.c\<close>.\<close>

lemma demo_worlds:
  "file_hash demo_world_int p = file_hash demo_world p"
  "file_hash demo_world_dir p = file_hash demo_world p"
  "parse demo_world_int p = parse demo_world p"
  "parse demo_world_dir p = parse demo_world p"
  "read_bytes demo_world_int p = read_bytes demo_world p"
  "read_bytes demo_world_dir p = read_bytes demo_world p"
  "index_nodes demo_world_int ns d = index_nodes demo_world ns d"
  "index_nodes demo_world_dir ns d = index_nodes demo_world ns d"
  "get_cpp_files demo_world_int p = get_cpp_files demo_world p"
  "file_hash demo_world_dir_int p = file_hash demo_world p"
  "parse demo_world_dir_int p = parse demo_world p"
  "read_bytes demo_world_dir_int p = read_bytes demo_world p"
  "index_nodes demo_world_dir_int ns d = index_nodes demo_world ns d"
  "get_cpp_files demo_world_dir_int p = get_cpp_files demo_world_dir p"
  by (simp_all add: demo_world_int_def demo_world_dir_def demo_world_dir_int_def
      world_update_irrelevant
      file_hash_def index_nodes_def index_function_def get_hash_def get_cpp_files_def
      cong: if_cong)

lemma process_demo:
  assumes "w = demo_world \<or> w = demo_world_int \<or> w = demo_world_dir \<or> w = demo_world_dir_int"
    and "process_files w a (start_state w Map.empty {} dk) [''demo.c''] = Inr S"
  shows "db S = [11 \<mapsto> {''f''}, 12 \<mapsto> {''f''}] \<and> fdb S = {10}"
proof -
  from assms(2) have f: "process_file w a ''demo.c'' (start_state w Map.empty {} dk) = Inr S"
    by (cases "process_file w a ''demo.c'' (start_state w Map.empty {} dk)") simp_all
  from assms(1) have h: "file_hash w ''demo.c'' = Some 10"
    and p: "parse w ''demo.c'' = Some [demo_unit, demo_f]"
    and i: "index_nodes w [demo_unit, demo_f] Map.empty = [11 \<mapsto> {''f''}, 12 \<mapsto> {''f''}]"
    by (auto simp: demo_worlds file_hash_demo index_nodes_demo) (simp_all add: demo_world_def)
  from fdb_process_file [OF f h] db_process_file_new [OF f h] p i show ?thesis by auto
qed

lemma process_demo_ex:
  assumes "w = demo_world \<or> w = demo_world_int \<or> w = demo_world_dir \<or> w = demo_world_dir_int"
  shows "\<exists>S. process_files w a (start_state w Map.empty {} dk) [''demo.c''] = Inr S
           \<and> db S = [11 \<mapsto> {''f''}, 12 \<mapsto> {''f''}] \<and> fdb S = {10}"
proof -
  from assms have "all_readable w [''demo.c'']"
    by (auto simp: all_readable_def demo_worlds) (simp_all add: demo_world_def)
  from process_files_readable [OF this] obtain S
    where "process_files w a (start_state w Map.empty {} dk) [''demo.c''] = Inr S" by blast
  with process_demo [OF assms this] show ?thesis by blast
qed

lemma card_dom_demo: "card (dom [11 \<mapsto> {''f''}, 12 \<mapsto> {''f''} :: string set] :: digest set) = 2"
  by simp

lemma main_demo_parse:
  "main demo_world (demo_args\<lparr>cmd := Parse False ''demo.c''\<rparr>) Map.empty =
     Inr (Database_size 2,
          [''str2func.db'' \<mapsto> Pickled (PDict [11 \<mapsto> {''f''}, 12 \<mapsto> {''f''}]),
           ''fh.db'' \<mapsto> Pickled (PSet {10})])"
proof -
  let ?a = "demo_args\<lparr>cmd := Parse False ''demo.c''\<rparr>"
  have c: "cmd ?a = Parse False ''demo.c''" by simp
  have it: "initial_tables ?a Map.empty = Inr (Map.empty, {})"
    by (rule initial_tables_no_files) (simp add: restart_def)
  have p: "strdb ?a = ''str2func.db''" "filesdb ?a = ''fh.db''"
    by (simp_all add: demo_args_def)
  from process_demo_ex [of demo_world ?a Map.empty] obtain S
    where S: "process_files demo_world ?a (start_state demo_world Map.empty {} Map.empty) [''demo.c'']
        = Inr S" "db S = [11 \<mapsto> {''f''}, 12 \<mapsto> {''f''}]" "fdb S = {10}"
    by blast
  have fs: "take (files_done demo_world (length (get_cpp_files demo_world ''demo.c'')))
      (get_cpp_files demo_world ''demo.c'') = [''demo.c'']"
    by (simp add: get_cpp_files_demo files_done_demo)
  show ?thesis
    using main_parse [where w = demo_world, OF c it]
    unfolding fs S(1) by (simp add: S(2,3) p)
qed

text \<open>The walk over the directory with \<^verbatim>\<open>vendor.c\<close> in it ends at that entry.\<close>

lemma files_done_demo_dir_int:
  "files_done demo_world_dir_int 3 = 2" "files_done demo_world_dir_int (Suc (Suc (Suc 0))) = 2"
proof -
  have "[0..<3] = [0, 1, 2]" by (simp add: upt_rec)
  then show "files_done demo_world_dir_int 3 = 2"
    by (simp add: files_done_def demo_world_dir_int_def demo_world_dir_def demo_world_def)
  then show "files_done demo_world_dir_int (Suc (Suc (Suc 0))) = 2"
    by (simp add: numeral_3_eq_3)
qed

lemma main_demo_vendor:
  assumes "w = demo_world_dir \<or> w = demo_world_dir_int"
    and "cmd a = Parse r ''.''" "initial_tables a dk = Inr (Map.empty, {})"
    and "savetime a = 1800"
  shows "main w a dk = Inl (OSError, dk)"
proof -
  let ?st = "start_state w Map.empty {} dk"
  have "all_readable w [''demo.c'']"
    using assms(1) by (auto simp: all_readable_def demo_worlds) (simp_all add: demo_world_def)
  then have "read_bytes w ''demo.c'' \<noteq> None" "parse w ''demo.c'' \<noteq> None"
    by (simp_all add: all_readable_def)
  from process_file_readable [OF this] obtain S
    where S: "process_file w a ''demo.c'' ?st = Inr S" by blast
  have "\<not> perf_counter w (ticks ?st) - save_time ?st > real_of_int (savetime a)"
    using assms(1)
    by (auto simp: start_state_def demo_world_dir_int_def demo_world_dir_def demo_world_def
        assms(4))
  from process_file_no_save [OF S this] have d: "on_disk S = dk" by simp
  have "read_bytes w ''vendor.c'' = None"
    using assms(1) by (auto simp: demo_worlds) (simp_all add: demo_world_def)
  then have v: "process_file w a ''vendor.c'' S = Inl (OSError, dk)"
    by (simp add: process_file_unreadable d)
  have "take (files_done w (length (get_cpp_files w ''.''))) (get_cpp_files w ''.'')
      = [''demo.c'', ''vendor.c'', ''one.c'']
    \<or> take (files_done w (length (get_cpp_files w ''.''))) (get_cpp_files w ''.'')
      = [''demo.c'', ''vendor.c'']"
    using assms(1)
    by (auto simp: demo_worlds get_cpp_files_demo_vendor files_done_demo files_done_demo_dir_int)
  then show ?thesis
  proof
    assume fs: "take (files_done w (length (get_cpp_files w ''.''))) (get_cpp_files w ''.'')
      = [''demo.c'', ''vendor.c'', ''one.c'']"
    show ?thesis
      using main_parse [where w = w, OF assms(2,3)]
      unfolding fs by (simp add: S v)
  next
    assume fs: "take (files_done w (length (get_cpp_files w ''.''))) (get_cpp_files w ''.'')
      = [''demo.c'', ''vendor.c'']"
    show ?thesis
      using main_parse [where w = w, OF assms(2,3)]
      unfolding fs by (simp add: S v)
  qed
qed

text \<open>
  What the autosaves of a stretch of files leave: the database files as they were, or
  both tables as they stood after one of the files.
\<close>

lemma process_files_saves:
  "process_files w a st fs = Inr S \<Longrightarrow>
   on_disk S = on_disk st
   \<or> (\<exists>i \<le> length fs. \<exists>S'. process_files w a st (take i fs) = Inr S'
         \<and> on_disk S = (on_disk st)(strdb a \<mapsto> Pickled (PDict (db S')),
                                      filesdb a \<mapsto> Pickled (PSet (fdb S'))))"
proof (induction fs arbitrary: S rule: rev_induct)
  case Nil
  then show ?case by simp
next
  case (snoc f fs)
  from snoc.prems obtain S1 where S1: "process_files w a st fs = Inr S1"
    and f: "process_file w a f S1 = Inr S"
    by (auto simp: process_files_append split: sum.splits)
  from process_file_saves [OF f] show ?case
  proof
    assume same: "on_disk S = on_disk S1"
    from snoc.IH [OF S1] show ?case
    proof
      assume "on_disk S1 = on_disk st"
      with same show ?case by simp
    next
      assume "\<exists>i \<le> length fs. \<exists>S'. process_files w a st (take i fs) = Inr S'
         \<and> on_disk S1 = (on_disk st)(strdb a \<mapsto> Pickled (PDict (db S')),
                                      filesdb a \<mapsto> Pickled (PSet (fdb S')))"
      then obtain i S' where i: "i \<le> length fs"
        and p: "process_files w a st (take i fs) = Inr S'"
        and o: "on_disk S1 = (on_disk st)(strdb a \<mapsto> Pickled (PDict (db S')),
                                      filesdb a \<mapsto> Pickled (PSet (fdb S')))"
        by blast
      from i have "take i (fs @ [f]) = take i fs" by simp
      with p have p': "process_files w a st (take i (fs @ [f])) = Inr S'" by simp
      from i have i': "i \<le> length (fs @ [f])" by simp
      from same o have "on_disk S = (on_disk st)(strdb a \<mapsto> Pickled (PDict (db S')),
                                      filesdb a \<mapsto> Pickled (PSet (fdb S')))"
        by (rule trans)
      with i' p' show ?case by blast
    qed
  next
    assume saved: "on_disk S = (on_disk S1)(strdb a \<mapsto> Pickled (PDict (db S)),
                                     filesdb a \<mapsto> Pickled (PSet (fdb S)))"
    have over: "(on_disk S1)(strdb a \<mapsto> x, filesdb a \<mapsto> y)
        = (on_disk st)(strdb a \<mapsto> x, filesdb a \<mapsto> y)" for x y
    proof (rule ext)
      fix q
      show "((on_disk S1)(strdb a \<mapsto> x, filesdb a \<mapsto> y)) q
          = ((on_disk st)(strdb a \<mapsto> x, filesdb a \<mapsto> y)) q"
        using on_disk_process_files [OF S1, of q] by simp
    qed
    from saved have "on_disk S = (on_disk st)(strdb a \<mapsto> Pickled (PDict (db S)),
                                     filesdb a \<mapsto> Pickled (PSet (fdb S)))"
      by (simp only: over)
    moreover from snoc.prems
    have "process_files w a st (take (length (fs @ [f])) (fs @ [f])) = Inr S" by simp
    ultimately show ?case by blast
  qed
qed

section \<open>The claims\<close>

text \<open>
  C1. For a function declaration, the generator yields, in token order, the spellings of
  the tokens of kind literal that begin with a double quote and are longer than 12
  characters, each without its first and its last character and otherwise as it is; the
  hash of that text is the key of the index. A quoted literal qualifies when its content
  has 11 characters or more, so content of length 10 or less is left out.
\<close>

theorem literal_extraction:
  "literals n =
     map (\<lambda>t. butlast (tl (token_spelling t)))
       (filter (\<lambda>t. token_kind t = LITERAL \<and> take 1 (token_spelling t) = [CHR 0x22]
                     \<and> 12 < length (token_spelling t)) (get_tokens n))
   \<and> (\<forall>t \<in> set (get_tokens n). qualifying t \<longrightarrow>
         (\<exists>z. token_spelling t = CHR 0x22 # slice_1_m1 (token_spelling t) @ [z]))
   \<and> dom (index_function w n d) = dom d \<union> xxh64 w ` set (literals n)
   \<and> (qualifying \<lparr>token_kind = LITERAL, token_spelling = CHR 0x22 # body @ [CHR 0x22]\<rparr>
        \<longleftrightarrow> 11 \<le> length body)"
proof (intro conjI)
  show "literals n =
     map (\<lambda>t. butlast (tl (token_spelling t)))
       (filter (\<lambda>t. token_kind t = LITERAL \<and> take 1 (token_spelling t) = [CHR 0x22]
                     \<and> 12 < length (token_spelling t)) (get_tokens n))"
  proof -
    have "qualifying = (\<lambda>t. token_kind t = LITERAL \<and> take 1 (token_spelling t) = [CHR 0x22]
                     \<and> 12 < length (token_spelling t))"
      by (rule ext) (simp add: qualifying_def startswith_dquote_iff)
    then show ?thesis
      by (simp add: literals_def slice_1_m1_def)
  qed
  show "\<forall>t \<in> set (get_tokens n). qualifying t \<longrightarrow>
         (\<exists>z. token_spelling t = CHR 0x22 # slice_1_m1 (token_spelling t) @ [z])"
    using qualifying_shape by blast
  show "dom (index_function w n d) = dom d \<union> xxh64 w ` set (literals n)"
    by (rule dom_index_function)
  show "qualifying \<lparr>token_kind = LITERAL, token_spelling = CHR 0x22 # body @ [CHR 0x22]\<rparr>
        \<longleftrightarrow> 11 \<le> length body"
    by (auto simp: qualifying_def startswith_dquote_def dquote_def)
qed

theorem literal_extraction_witness:
  "quoted ''0123456789A'' \<in> set (get_tokens demo_f)
   \<and> qualifying (quoted ''0123456789A'')
   \<and> \<not> qualifying (quoted ''0123456789'')
   \<and> token_spelling (quoted ''0123456789A'') = CHR 0x22 # ''0123456789A'' @ [CHR 0x22]
   \<and> literals demo_f = [''0123456789A'', ''0123456789AB'']
   \<and> dom (index_function demo_world demo_f Map.empty) = {11, 12}"
  using literal_extraction [of demo_f demo_world Map.empty "''0123456789A''"]
    literal_extraction [of demo_f demo_world Map.empty "''0123456789''"]
  by (simp add: demo_f_def demo_world_def quoted_def slice_1_m1_def)

text \<open>
  C2. \<^verbatim>\<open>process_file\<close> indexes a file exactly when its hash is not in the files set, and
  whenever it returns, the hash is in the set afterwards. Processing the same unchanged file
  again leaves the index, the files set and the database files as they were after the first
  time. So when a \<^verbatim>\<open>parse\<close> run that no Ctrl+C cut short is followed by a second run over
  the same unchanged files (whatever the clock, the signals and the save interval of that
  second run, the two database paths being different), the second run reports the same size
  and leaves every database file as the first run left it.
\<close>

theorem unchanged_file_idempotent:
  fixes w :: world
  shows "(read_bytes w p \<noteq> None \<and> parse w p \<noteq> None \<longrightarrow> (\<exists>st1. process_file w a p st = Inr st1))
       \<and> (\<forall>st1. process_file w a p st = Inr st1 \<longrightarrow>
            (\<exists>h. file_hash w p = Some h
               \<and> fdb st1 = insert h (fdb st)
               \<and> (h \<in> fdb st \<longrightarrow> db st1 = db st \<and> on_disk st1 = on_disk st)
               \<and> (h \<notin> fdb st \<longrightarrow>
                    (\<exists>ns. parse w p = Some ns \<and> db st1 = index_nodes w ns (db st))))
            \<and> (\<exists>st2. process_file w a p st1 = Inr st2
                  \<and> db st2 = db st1 \<and> fdb st2 = fdb st1 \<and> on_disk st2 = on_disk st1))
       \<and> (cmd a = Parse r q \<and> strdb a \<noteq> filesdb a \<and> (\<forall>j. \<not> sigint w j)
            \<and> main w a dk = Inr (out, dk_after) \<longrightarrow>
          main (w\<lparr>perf_counter := pc, sigint := sg\<rparr>) (a\<lparr>cmd := Parse False q, savetime := t\<rparr>) dk_after
            = Inr (out, dk_after))"
proof (intro conjI impI allI)
  assume "read_bytes w p \<noteq> None \<and> parse w p \<noteq> None"
  then show "\<exists>st1. process_file w a p st = Inr st1"
    using process_file_readable by blast
next
  fix st1
  assume r: "process_file w a p st = Inr st1"
  from process_file_Inr_hash [OF r] obtain h
    where h: "file_hash w p = Some h" "fdb st1 = insert h (fdb st)" by blast
  have known: "db st1 = db st \<and> on_disk st1 = on_disk st" if "h \<in> fdb st"
    using db_process_file_known [OF r h(1) that] by simp
  have new: "\<exists>ns. parse w p = Some ns \<and> db st1 = index_nodes w ns (db st)" if "h \<notin> fdb st"
    using db_process_file_new [OF r h(1) that] .
  from h known new
  show "\<exists>h. file_hash w p = Some h
               \<and> fdb st1 = insert h (fdb st)
               \<and> (h \<in> fdb st \<longrightarrow> db st1 = db st \<and> on_disk st1 = on_disk st)
               \<and> (h \<notin> fdb st \<longrightarrow>
                    (\<exists>ns. parse w p = Some ns \<and> db st1 = index_nodes w ns (db st)))"
    by blast
  show "\<exists>st2. process_file w a p st1 = Inr st2
                  \<and> db st2 = db st1 \<and> fdb st2 = fdb st1 \<and> on_disk st2 = on_disk st1"
    by (subst process_file_twice [OF r]) simp
next
  assume asm: "cmd a = Parse r q \<and> strdb a \<noteq> filesdb a \<and> (\<forall>j. \<not> sigint w j)
            \<and> main w a dk = Inr (out, dk_after)"
  then have c: "cmd a = Parse r q" and s: "strdb a \<noteq> filesdb a" and ns: "\<forall>j. \<not> sigint w j"
    and m: "main w a dk = Inr (out, dk_after)" by simp_all
  let ?files = "get_cpp_files w q"
  from main_tables [OF m] obtain d f where it: "initial_tables a dk = Inr (d, f)" by blast
  from main_parse [where w = w, OF c it] m obtain S
    where S: "process_files w a (start_state w d f dk) ?files = Inr S"
      and out: "out = Database_size (card (dom (db S)))"
      and dk1: "dk_after = dk(strdb a \<mapsto> Pickled (PDict (db S)), filesdb a \<mapsto> Pickled (PSet (fdb S)))"
    by (cases "process_files w a (start_state w d f dk) ?files")
       (auto simp: files_done_all [OF ns])
  let ?w = "w\<lparr>perf_counter := pc, sigint := sg\<rparr>"
  let ?a = "a\<lparr>cmd := Parse False q, savetime := t\<rparr>"
  have "main ?w ?a dk_after = Inr (Database_size (card (dom (db S))), dk_after)"
  proof (rule main_parse_known [where f = "fdb S"])
    show "cmd ?a = Parse False q" by simp
    show "strdb ?a \<noteq> filesdb ?a" using s by simp
    show "dk_after (strdb ?a) = Some (Pickled (PDict (db S)))" using s by (simp add: dk1)
    show "dk_after (filesdb ?a) = Some (Pickled (PSet (fdb S)))" by (simp add: dk1)
    show "\<forall>fp \<in> set (get_cpp_files ?w q). \<exists>h. file_hash ?w fp = Some h \<and> h \<in> fdb S"
      using process_files_hashes [OF S] by (simp add: world_update_irrelevant)
  qed
  with out show "main ?w ?a dk_after = Inr (out, dk_after)" by simp
qed

theorem unchanged_file_idempotent_witness:
  "read_bytes demo_world ''demo.c'' \<noteq> None \<and> parse demo_world ''demo.c'' \<noteq> None
   \<and> (\<exists>st1. process_file demo_world demo_args ''demo.c''
               (start_state demo_world Map.empty {} Map.empty) = Inr st1
          \<and> fdb st1 = {10}
          \<and> db st1 = [11 \<mapsto> {''f''}, 12 \<mapsto> {''f''}]
          \<and> (\<exists>st2. process_file demo_world demo_args ''demo.c'' st1 = Inr st2
                \<and> db st2 = db st1 \<and> fdb st2 = fdb st1 \<and> on_disk st2 = on_disk st1))
   \<and> cmd (demo_args\<lparr>cmd := Parse False ''demo.c''\<rparr>) = Parse False ''demo.c''
   \<and> strdb demo_args \<noteq> filesdb demo_args
   \<and> (\<forall>j. \<not> sigint demo_world j)
   \<and> main demo_world (demo_args\<lparr>cmd := Parse False ''demo.c''\<rparr>) Map.empty =
       Inr (Database_size 2,
            [''str2func.db'' \<mapsto> Pickled (PDict [11 \<mapsto> {''f''}, 12 \<mapsto> {''f''}]),
             ''fh.db'' \<mapsto> Pickled (PSet {10})])
   \<and> main (demo_world\<lparr>perf_counter := (\<lambda>n. 5000 * real n), sigint := (\<lambda>i. i = 3)\<rparr>)
        (demo_args\<lparr>cmd := Parse False ''demo.c'', savetime := 1\<rparr>)
        [''str2func.db'' \<mapsto> Pickled (PDict [11 \<mapsto> {''f''}, 12 \<mapsto> {''f''}]),
         ''fh.db'' \<mapsto> Pickled (PSet {10})] =
       Inr (Database_size 2,
            [''str2func.db'' \<mapsto> Pickled (PDict [11 \<mapsto> {''f''}, 12 \<mapsto> {''f''}]),
             ''fh.db'' \<mapsto> Pickled (PSet {10})])"
proof -
  let ?a = "demo_args\<lparr>cmd := Parse False ''demo.c''\<rparr>"
  let ?dk = "[''str2func.db'' \<mapsto> Pickled (PDict [11 \<mapsto> {''f''}, 12 \<mapsto> {''f''}]),
             ''fh.db'' \<mapsto> Pickled (PSet {10})]"
  let ?st = "start_state demo_world Map.empty {} Map.empty"
  have rd: "read_bytes demo_world ''demo.c'' \<noteq> None \<and> parse demo_world ''demo.c'' \<noteq> None"
    by (simp add: demo_world_def)
  have c: "cmd ?a = Parse False ''demo.c''" by simp
  have s: "strdb ?a \<noteq> filesdb ?a" and s': "strdb demo_args \<noteq> filesdb demo_args"
    by (simp_all add: demo_args_def)
  have ns: "\<forall>j. \<not> sigint demo_world j" by (simp add: demo_world_def)
  have upd: "?a\<lparr>cmd := Parse False ''demo.c'', savetime := 1\<rparr>
      = demo_args\<lparr>cmd := Parse False ''demo.c'', savetime := 1\<rparr>" by simp
  note t = unchanged_file_idempotent [where w = demo_world and a = ?a and r = False
      and q = "''demo.c''" and dk = Map.empty and out = "Database_size 2" and dk_after = ?dk
      and pc = "\<lambda>n. 5000 * real n" and sg = "\<lambda>i. i = 3" and t = 1]
  from t c s ns main_demo_parse
  have second: "main (demo_world\<lparr>perf_counter := (\<lambda>n. 5000 * real n), sigint := (\<lambda>i. i = 3)\<rparr>)
        (?a\<lparr>cmd := Parse False ''demo.c'', savetime := 1\<rparr>) ?dk = Inr (Database_size 2, ?dk)"
    by blast
  note u = unchanged_file_idempotent [where w = demo_world and a = demo_args and p = "''demo.c''"
      and st = ?st]
  from u rd obtain st1 where st1: "process_file demo_world demo_args ''demo.c'' ?st = Inr st1"
    by blast
  then have "process_files demo_world demo_args ?st [''demo.c''] = Inr st1" by simp
  from process_demo [OF _ this] have tables: "db st1 = [11 \<mapsto> {''f''}, 12 \<mapsto> {''f''}]" "fdb st1 = {10}"
    by simp_all
  from u st1 have again: "\<exists>st2. process_file demo_world demo_args ''demo.c'' st1 = Inr st2
                \<and> db st2 = db st1 \<and> fdb st2 = fdb st1 \<and> on_disk st2 = on_disk st1"
    by blast
  from st1 tables again
  have first: "\<exists>st1. process_file demo_world demo_args ''demo.c'' ?st = Inr st1
          \<and> fdb st1 = {10}
          \<and> db st1 = [11 \<mapsto> {''f''}, 12 \<mapsto> {''f''}]
          \<and> (\<exists>st2. process_file demo_world demo_args ''demo.c'' st1 = Inr st2
                \<and> db st2 = db st1 \<and> fdb st2 = fdb st1 \<and> on_disk st2 = on_disk st1)"
    by blast
  from rd first c s' ns main_demo_parse second show ?thesis
    unfolding upd by blast
qed

text \<open>
  C3, as stated, fails with \<^verbatim>\<open>--restart\<close>: the tables start empty, \<^verbatim>\<open>process_path\<close>
  returns at once when it finds no file, and \<^verbatim>\<open>save_all\<close> then writes the empty tables
  over the files.
\<close>

theorem input_error_restart_counterexample:
  "get_cpp_files demo_world ''missing'' = []
   \<and> load_db demo_disk ''str2func.db'' = Inr (PDict [7 \<mapsto> {''h''}])
   \<and> load_fdb demo_disk ''fh.db'' = Inr (PSet {3})
   \<and> main demo_world (demo_args\<lparr>cmd := Parse True ''missing''\<rparr>) demo_disk =
       Inr (Database_size 0,
            demo_disk(''str2func.db'' \<mapsto> Pickled (PDict Map.empty), ''fh.db'' \<mapsto> Pickled (PSet {})))
   \<and> load_db (demo_disk(''str2func.db'' \<mapsto> Pickled (PDict Map.empty), ''fh.db'' \<mapsto> Pickled (PSet {})))
        ''str2func.db'' \<noteq> load_db demo_disk ''str2func.db''
   \<and> load_fdb (demo_disk(''str2func.db'' \<mapsto> Pickled (PDict Map.empty), ''fh.db'' \<mapsto> Pickled (PSet {})))
        ''fh.db'' \<noteq> load_fdb demo_disk ''fh.db''"
proof -
  have a: "cmd (demo_args\<lparr>cmd := Parse True ''missing''\<rparr>) = Parse True ''missing''" by simp
  have m: "main demo_world (demo_args\<lparr>cmd := Parse True ''missing''\<rparr>) demo_disk =
       Inr (Database_size 0,
            demo_disk(''str2func.db'' \<mapsto> Pickled (PDict Map.empty), ''fh.db'' \<mapsto> Pickled (PSet {})))"
    using main_parse [where w = demo_world and dk = demo_disk, OF a initial_tables_restart [OF a]]
    by (simp add: get_cpp_files_demo_missing demo_args_def)
  show ?thesis
    by (simp add: m get_cpp_files_demo_missing load_demo_disk load_after_save empty_neq_map_upd)
qed

text \<open>
  C3, amended. When the path does not exist or holds no \<^verbatim>\<open>.c\<close>/\<^verbatim>\<open>.cpp\<close> file and the
  two database paths differ: without \<^verbatim>\<open>--restart\<close> the run saves the tables it has
  loaded, so both files hold what they held (a missing one is created with the empty
  table) and no other file changes; with \<^verbatim>\<open>--restart\<close> both files are left holding empty
  tables.
\<close>

theorem input_error_keeps_tables:
  assumes "cmd a = Parse r p" "get_cpp_files w p = []" "strdb a \<noteq> filesdb a"
  shows "(r \<longrightarrow> main w a dk =
               Inr (Database_size 0,
                    dk(strdb a \<mapsto> Pickled (PDict Map.empty), filesdb a \<mapsto> Pickled (PSet {}))))
       \<and> (\<not> r \<longrightarrow>
            (\<forall>out dk'. main w a dk = Inr (out, dk') \<longrightarrow>
               load_db dk' (strdb a) = load_db dk (strdb a)
               \<and> load_fdb dk' (filesdb a) = load_fdb dk (filesdb a)
               \<and> (\<forall>q. q \<noteq> strdb a \<longrightarrow> q \<noteq> filesdb a \<longrightarrow> dk' q = dk q))
            \<and> (\<forall>d f. load_db dk (strdb a) = Inr (PDict d) \<longrightarrow>
                     load_fdb dk (filesdb a) = Inr (PSet f) \<longrightarrow>
                 main w a dk =
                   Inr (Database_size (card (dom d)),
                        dk(strdb a \<mapsto> Pickled (PDict d), filesdb a \<mapsto> Pickled (PSet f)))))"
proof (intro conjI impI allI)
  assume r
  with assms(1) have a: "cmd a = Parse True p" by simp
  from main_parse [where w = w and dk = dk, OF a initial_tables_restart [OF a]] assms(2)
  show "main w a dk =
          Inr (Database_size 0,
               dk(strdb a \<mapsto> Pickled (PDict Map.empty), filesdb a \<mapsto> Pickled (PSet {})))"
    by simp
next
  fix d f
  assume "\<not> r" and l: "load_db dk (strdb a) = Inr (PDict d)" "load_fdb dk (filesdb a) = Inr (PSet f)"
  with assms(1) have "\<not> restart a" by (simp add: restart_def)
  with l have "initial_tables a dk = Inr (d, f)" by (simp add: initial_tables_load)
  from main_parse [where w = w, OF assms(1) this] assms(2)
  show "main w a dk =
          Inr (Database_size (card (dom d)),
               dk(strdb a \<mapsto> Pickled (PDict d), filesdb a \<mapsto> Pickled (PSet f)))"
    by simp
next
  fix out dk'
  assume "\<not> r" and m: "main w a dk = Inr (out, dk')"
  with assms(1) have nr: "\<not> restart a" by (simp add: restart_def)
  from m obtain d f where it: "initial_tables a dk = Inr (d, f)"
    by (cases "initial_tables a dk") (auto simp: main_def)
  with nr have l: "load_db dk (strdb a) = Inr (PDict d)" "load_fdb dk (filesdb a) = Inr (PSet f)"
    by (simp_all add: initial_tables_load)
  from main_parse [where w = w, OF assms(1) it] assms(2) m
  have dk': "dk' = dk(strdb a \<mapsto> Pickled (PDict d), filesdb a \<mapsto> Pickled (PSet f))"
    by simp
  show "load_db dk' (strdb a) = load_db dk (strdb a)"
    using assms(3) by (simp add: dk' l load_after_save)
  show "load_fdb dk' (filesdb a) = load_fdb dk (filesdb a)"
    by (simp add: dk' l load_after_save)
  fix q
  assume "q \<noteq> strdb a" "q \<noteq> filesdb a"
  then show "dk' q = dk q" by (simp add: dk')
qed

theorem input_error_keeps_tables_witness:
  "cmd (demo_args\<lparr>cmd := Parse False ''missing''\<rparr>) = Parse False ''missing''
   \<and> get_cpp_files demo_world ''missing'' = []
   \<and> strdb demo_args \<noteq> filesdb demo_args
   \<and> load_db demo_disk ''str2func.db'' = Inr (PDict [7 \<mapsto> {''h''}])
   \<and> load_fdb demo_disk ''fh.db'' = Inr (PSet {3})
   \<and> main demo_world (demo_args\<lparr>cmd := Parse False ''missing''\<rparr>) demo_disk =
       Inr (Database_size 1,
            demo_disk(''str2func.db'' \<mapsto> Pickled (PDict [7 \<mapsto> {''h''}]),
                      ''fh.db'' \<mapsto> Pickled (PSet {3})))
   \<and> main demo_world (demo_args\<lparr>cmd := Parse True ''missing''\<rparr>) demo_disk =
       Inr (Database_size 0,
            demo_disk(''str2func.db'' \<mapsto> Pickled (PDict Map.empty), ''fh.db'' \<mapsto> Pickled (PSet {})))"
proof -
  let ?a = "demo_args\<lparr>cmd := Parse False ''missing''\<rparr>"
  let ?b = "demo_args\<lparr>cmd := Parse True ''missing''\<rparr>"
  have ca: "cmd ?a = Parse False ''missing''" and cb: "cmd ?b = Parse True ''missing''"
    by simp_all
  have g: "get_cpp_files demo_world ''missing'' = []"
    by (rule get_cpp_files_demo_missing)
  have sa: "strdb ?a \<noteq> filesdb ?a" and sb: "strdb ?b \<noteq> filesdb ?b"
    and s: "strdb demo_args \<noteq> filesdb demo_args"
    by (simp_all add: demo_args_def)
  have la: "load_db demo_disk (strdb ?a) = Inr (PDict [7 \<mapsto> {''h''}])"
    and lf: "load_fdb demo_disk (filesdb ?a) = Inr (PSet {3})"
    by (simp_all add: demo_args_def load_demo_disk)
  have "main demo_world ?a demo_disk =
          Inr (Database_size (card (dom [7 \<mapsto> {''h''}] :: digest set)),
               demo_disk(strdb ?a \<mapsto> Pickled (PDict [7 \<mapsto> {''h''}]),
                         filesdb ?a \<mapsto> Pickled (PSet {3})))"
    using input_error_keeps_tables [OF ca g sa, of demo_disk] la lf by blast
  then have ma: "main demo_world ?a demo_disk =
       Inr (Database_size 1,
            demo_disk(''str2func.db'' \<mapsto> Pickled (PDict [7 \<mapsto> {''h''}]),
                      ''fh.db'' \<mapsto> Pickled (PSet {3})))"
    by (simp add: demo_args_def)
  have "main demo_world ?b demo_disk =
          Inr (Database_size 0,
               demo_disk(strdb ?b \<mapsto> Pickled (PDict Map.empty), filesdb ?b \<mapsto> Pickled (PSet {})))"
    using input_error_keeps_tables [OF cb g sb, of demo_disk] by blast
  then have mb: "main demo_world ?b demo_disk =
       Inr (Database_size 0,
            demo_disk(''str2func.db'' \<mapsto> Pickled (PDict Map.empty), ''fh.db'' \<mapsto> Pickled (PSet {})))"
    by (simp add: demo_args_def)
  from ca g s ma mb load_demo_disk show ?thesis by blast
qed

text \<open>
  C4. \<^verbatim>\<open>merge\<close> puts the singleton of the name under a hash that is not in the index,
  adds the name to the set of a hash that is, leaves every other key alone, and doing it
  twice is the same as doing it once.
\<close>

theorem merge_idempotent:
  "(d h = None \<longrightarrow> merge h f d h = Some {f})
   \<and> (\<forall>names. d h = Some names \<longrightarrow> merge h f d h = Some (insert f names))
   \<and> (\<forall>k. k \<noteq> h \<longrightarrow> merge h f d k = d k)
   \<and> merge h f (merge h f d) = merge h f d"
  by (auto simp: merge_def split: option.splits)

theorem merge_idempotent_witness:
  "(Map.empty :: strdb_t) 5 = None
   \<and> merge 5 ''foo'' Map.empty 5 = Some {''foo''}
   \<and> merge 5 ''foo'' Map.empty 6 = None
   \<and> merge 5 ''bar'' (merge 5 ''foo'' Map.empty) 5 = Some {''bar'', ''foo''}
   \<and> merge 5 ''foo'' (merge 5 ''foo'' Map.empty) = [5 \<mapsto> {''foo''}]"
  using merge_idempotent [of Map.empty 5 "''foo''"]
    merge_idempotent [of "merge 5 ''foo'' Map.empty" 5 "''bar''"]
  by (simp add: merge_def)

text \<open>
  C5. A \<^verbatim>\<open>parse --restart\<close> run starts from an empty index and an empty files set
  whatever the database files hold, but it replaces what they hold only when it saves. In
  a directory where the walk meets an entry that cannot be opened, over database files
  that hold earlier entries, the run ends with the exception before \<^verbatim>\<open>save_all\<close>: the
  earlier entries are still in both files, and nothing of this run is.
\<close>

theorem restart_died_counterexample:
  "cmd (demo_args\<lparr>cmd := Parse True ''.''\<rparr>) = Parse True ''.''
   \<and> get_cpp_files demo_world_dir ''.'' = [''demo.c'', ''vendor.c'', ''one.c'']
   \<and> read_bytes demo_world_dir ''vendor.c'' = None
   \<and> main demo_world_dir (demo_args\<lparr>cmd := Parse True ''.''\<rparr>) demo_disk
        = Inl (OSError, demo_disk)
   \<and> load_db demo_disk ''str2func.db'' = Inr (PDict [7 \<mapsto> {''h''}])
   \<and> load_fdb demo_disk ''fh.db'' = Inr (PSet {3})"
proof -
  let ?a = "demo_args\<lparr>cmd := Parse True ''.''\<rparr>"
  have c: "cmd ?a = Parse True ''.''" by simp
  have t: "savetime ?a = 1800" by (simp add: demo_args_def)
  have v: "read_bytes demo_world_dir ''vendor.c'' = None"
    by (simp add: demo_worlds) (simp add: demo_world_def)
  have "main demo_world_dir ?a demo_disk = Inl (OSError, demo_disk)"
    by (rule main_demo_vendor [OF _ c initial_tables_restart [OF c] t]) simp
  with c v get_cpp_files_demo_vendor load_demo_disk show ?thesis by blast
qed

text \<open>
  C5, as the code has it. With \<^verbatim>\<open>--restart\<close> and two different database paths: when every
  file the run reaches can be opened and parsed, the run returns; and when it returns,
  whatever the database files held before, it leaves in them the tables that the same run
  builds from an empty index and an empty files set, the size reported and both files being
  the same as on a disk with no database file. The files set then holds exactly the hashes
  of the files of this run, every name in the index is the name of a function declaration
  of a file of this run that holds a qualifying literal with that hash, and every file of
  this run whose hash no earlier file of the run has is folded in. When the run ends with
  an exception instead, at a file that cannot be opened or parsed, the database files are
  as they were before the run, or hold the tables, built from empty ones, of the files of
  this run up to an autosave.
\<close>

theorem restart_fresh_index:
  fixes w :: world
  assumes "cmd a = Parse True p" "strdb a \<noteq> filesdb a"
  defines "files \<equiv> take (files_done w (length (get_cpp_files w p))) (get_cpp_files w p)"
  shows "(all_readable w files \<longrightarrow> (\<exists>out dk'. main w a dk = Inr (out, dk')))
       \<and> (\<forall>out dk'. main w a dk = Inr (out, dk') \<longrightarrow>
            (\<exists>S. process_files w a (start_state w Map.empty {} Map.empty) files = Inr S
               \<and> out = Database_size (card (dom (db S)))
               \<and> dk' = dk(strdb a \<mapsto> Pickled (PDict (db S)),
                          filesdb a \<mapsto> Pickled (PSet (fdb S)))
               \<and> main w a Map.empty =
                   Inr (out, [strdb a \<mapsto> Pickled (PDict (db S)),
                              filesdb a \<mapsto> Pickled (PSet (fdb S))])
               \<and> load_db dk' (strdb a) = Inr (PDict (db S))
               \<and> load_fdb dk' (filesdb a) = Inr (PSet (fdb S))
               \<and> fdb S = {h. \<exists>fp \<in> set files. file_hash w fp = Some h}
               \<and> (\<forall>k names x. db S k = Some names \<longrightarrow> x \<in> names \<longrightarrow>
                    (\<exists>fp \<in> set files. \<exists>ns n. parse w fp = Some ns \<and> n \<in> set ns
                       \<and> node_kind n = FUNCTION_DECL \<and> node_spelling n = x
                       \<and> k \<in> get_hash w ` set (literals n)))
               \<and> (\<forall>i < length files. \<forall>h. file_hash w (files ! i) = Some h \<longrightarrow>
                    h \<notin> {h. \<exists>fp \<in> set (take i files). file_hash w fp = Some h} \<longrightarrow>
                    folded_in w (files ! i) (db S))))
       \<and> (\<forall>e dk'. main w a dk = Inl (e, dk') \<longrightarrow>
            (\<exists>j < length files.
                (read_bytes w (files ! j) = None \<or> parse w (files ! j) = None)
              \<and> (dk' = dk
                 \<or> (\<exists>i \<le> j. \<exists>S.
                       process_files w a (start_state w Map.empty {} Map.empty) (take i files)
                         = Inr S
                     \<and> dk' = dk(strdb a \<mapsto> Pickled (PDict (db S)),
                                filesdb a \<mapsto> Pickled (PSet (fdb S)))))))"
proof (intro conjI allI impI)
  note it = initial_tables_restart [OF assms(1)]
  assume "all_readable w files"
  then show "\<exists>out dk'. main w a dk = Inr (out, dk')"
    unfolding files_def by (rule main_parse_readable [OF assms(1) it])
next
  note it = initial_tables_restart [OF assms(1)]
  fix out dk'
  assume m: "main w a dk = Inr (out, dk')"
  from m main_parse [where w = w and dk = dk, OF assms(1) it] obtain T
    where T: "process_files w a (start_state w Map.empty {} dk) files = Inr T"
      and out: "out = Database_size (card (dom (db T)))"
      and dk': "dk' = dk(strdb a \<mapsto> Pickled (PDict (db T)), filesdb a \<mapsto> Pickled (PSet (fdb T)))"
    unfolding files_def
    by (cases "process_files w a (start_state w Map.empty {} dk)
          (take (files_done w (length (get_cpp_files w p))) (get_cpp_files w p))") auto
  from process_files_cong [OF T, of "start_state w Map.empty {} Map.empty" a] obtain S
    where S: "process_files w a (start_state w Map.empty {} Map.empty) files = Inr S"
      and eq: "db S = db T" "fdb S = fdb T"
    by auto
  have m2: "main w a Map.empty =
      Inr (out, [strdb a \<mapsto> Pickled (PDict (db S)), filesdb a \<mapsto> Pickled (PSet (fdb S))])"
    using main_parse [where w = w and dk = Map.empty, OF assms(1) it] S
    unfolding files_def by (simp add: out eq)
  have ld: "load_db dk' (strdb a) = Inr (PDict (db S))"
    using assms(2) by (simp add: dk' eq load_after_save)
  have lf: "load_fdb dk' (filesdb a) = Inr (PSet (fdb S))"
    by (simp add: dk' eq load_after_save)
  have f: "fdb S = {h. \<exists>fp \<in> set files. file_hash w fp = Some h}"
    using fdb_process_files [OF S] by simp
  have o: "\<exists>fp \<in> set files. \<exists>ns n. parse w fp = Some ns \<and> n \<in> set ns
                       \<and> node_kind n = FUNCTION_DECL \<and> node_spelling n = x
                       \<and> k \<in> get_hash w ` set (literals n)"
    if "db S k = Some names" "x \<in> names" for k names x
    using process_files_origin [OF S that] by simp
  have fo: "folded_in w (files ! i) (db S)"
    if "i < length files" "file_hash w (files ! i) = Some h"
      "h \<notin> {h. \<exists>fp \<in> set (take i files). file_hash w fp = Some h}" for i h
  proof (rule process_files_folded_in [OF S that(1,2)])
    from that(3)
    show "h \<notin> fdb (start_state w Map.empty {} Map.empty)
        \<union> {h. \<exists>fp \<in> set (take i files). file_hash w fp = Some h}"
      by simp
  qed
  from S out dk' m2 ld lf f o fo
  show "\<exists>S. process_files w a (start_state w Map.empty {} Map.empty) files = Inr S
               \<and> out = Database_size (card (dom (db S)))
               \<and> dk' = dk(strdb a \<mapsto> Pickled (PDict (db S)),
                          filesdb a \<mapsto> Pickled (PSet (fdb S)))
               \<and> main w a Map.empty =
                   Inr (out, [strdb a \<mapsto> Pickled (PDict (db S)),
                              filesdb a \<mapsto> Pickled (PSet (fdb S))])
               \<and> load_db dk' (strdb a) = Inr (PDict (db S))
               \<and> load_fdb dk' (filesdb a) = Inr (PSet (fdb S))
               \<and> fdb S = {h. \<exists>fp \<in> set files. file_hash w fp = Some h}
               \<and> (\<forall>k names x. db S k = Some names \<longrightarrow> x \<in> names \<longrightarrow>
                    (\<exists>fp \<in> set files. \<exists>ns n. parse w fp = Some ns \<and> n \<in> set ns
                       \<and> node_kind n = FUNCTION_DECL \<and> node_spelling n = x
                       \<and> k \<in> get_hash w ` set (literals n)))
               \<and> (\<forall>i < length files. \<forall>h. file_hash w (files ! i) = Some h \<longrightarrow>
                    h \<notin> {h. \<exists>fp \<in> set (take i files). file_hash w fp = Some h} \<longrightarrow>
                    folded_in w (files ! i) (db S))"
    unfolding eq by (intro exI [of _ S] conjI) (simp_all only: eq, blast+)
next
  note it = initial_tables_restart [OF assms(1)]
  let ?full = "get_cpp_files w p"
  let ?k = "files_done w (length ?full)"
  fix e dk'
  assume m: "main w a dk = Inl (e, dk')"
  from main_parse_died [OF assms(1) it m] obtain j T
    where j: "j < ?k"
      and T: "process_files w a (start_state w Map.empty {} dk) (take j ?full) = Inr T"
      and dk': "dk' = on_disk T"
      and bad: "read_bytes w (?full ! j) = None \<or> parse w (?full ! j) = None"
    by blast
  have k: "?k \<le> length ?full" by (rule files_done_le)
  from j k have jl: "j < length files" by (simp add: files_def)
  from j have nth: "files ! j = ?full ! j" by (simp add: files_def)
  have tk: "take i (take j ?full) = take i files" if "i \<le> j" for i
    using that j by (simp add: files_def min_def)
  from process_files_saves [OF T]
  have "dk' = dk
      \<or> (\<exists>i \<le> j. \<exists>S.
            process_files w a (start_state w Map.empty {} Map.empty) (take i files) = Inr S
          \<and> dk' = dk(strdb a \<mapsto> Pickled (PDict (db S)), filesdb a \<mapsto> Pickled (PSet (fdb S))))"
  proof
    assume "on_disk T = on_disk (start_state w Map.empty {} dk)"
    then show ?thesis by (simp add: dk')
  next
    assume "\<exists>i \<le> length (take j ?full). \<exists>S'.
        process_files w a (start_state w Map.empty {} dk) (take i (take j ?full)) = Inr S'
        \<and> on_disk T = (on_disk (start_state w Map.empty {} dk))
              (strdb a \<mapsto> Pickled (PDict (db S')), filesdb a \<mapsto> Pickled (PSet (fdb S')))"
    then obtain i S' where i: "i \<le> length (take j ?full)"
      and S': "process_files w a (start_state w Map.empty {} dk) (take i (take j ?full)) = Inr S'"
      and o: "on_disk T = dk(strdb a \<mapsto> Pickled (PDict (db S')), filesdb a \<mapsto> Pickled (PSet (fdb S')))"
      by auto
    from i have ij: "i \<le> j" by simp
    from process_files_cong [OF S', of "start_state w Map.empty {} Map.empty" a] obtain S
      where "process_files w a (start_state w Map.empty {} Map.empty) (take i (take j ?full)) = Inr S"
        and eq: "db S = db S'" "fdb S = fdb S'"
      by auto
    with tk [OF ij]
    have "process_files w a (start_state w Map.empty {} Map.empty) (take i files) = Inr S"
      by simp
    moreover from o eq
    have "dk' = dk(strdb a \<mapsto> Pickled (PDict (db S)), filesdb a \<mapsto> Pickled (PSet (fdb S)))"
      by (simp add: dk')
    ultimately show ?thesis using ij by blast
  qed
  with jl bad nth
  show "\<exists>j < length files.
                (read_bytes w (files ! j) = None \<or> parse w (files ! j) = None)
              \<and> (dk' = dk
                 \<or> (\<exists>i \<le> j. \<exists>S.
                       process_files w a (start_state w Map.empty {} Map.empty) (take i files)
                         = Inr S
                     \<and> dk' = dk(strdb a \<mapsto> Pickled (PDict (db S)),
                                filesdb a \<mapsto> Pickled (PSet (fdb S)))))"
    by (intro exI [of _ j]) simp
qed

theorem restart_fresh_index_witness:
  "cmd (demo_args\<lparr>cmd := Parse True ''demo.c''\<rparr>) = Parse True ''demo.c''
   \<and> strdb demo_args \<noteq> filesdb demo_args
   \<and> all_readable demo_world [''demo.c'']
   \<and> main demo_world (demo_args\<lparr>cmd := Parse True ''demo.c''\<rparr>) demo_disk =
       Inr (Database_size 2,
            demo_disk(''str2func.db'' \<mapsto> Pickled (PDict [11 \<mapsto> {''f''}, 12 \<mapsto> {''f''}]),
                      ''fh.db'' \<mapsto> Pickled (PSet {10})))
   \<and> main demo_world (demo_args\<lparr>cmd := Parse True ''demo.c''\<rparr>) Map.empty =
       Inr (Database_size 2,
            [''str2func.db'' \<mapsto> Pickled (PDict [11 \<mapsto> {''f''}, 12 \<mapsto> {''f''}]),
             ''fh.db'' \<mapsto> Pickled (PSet {10})])
   \<and> main demo_world_dir (demo_args\<lparr>cmd := Parse True ''.''\<rparr>) demo_disk
        = Inl (OSError, demo_disk)
   \<and> (\<exists>j < 3. read_bytes demo_world_dir ([''demo.c'', ''vendor.c'', ''one.c''] ! j) = None
              \<or> parse demo_world_dir ([''demo.c'', ''vendor.c'', ''one.c''] ! j) = None)"
proof -
  let ?a = "demo_args\<lparr>cmd := Parse True ''demo.c''\<rparr>"
  let ?b = "demo_args\<lparr>cmd := Parse True ''.''\<rparr>"
  let ?D = "[11 \<mapsto> {''f''}, 12 \<mapsto> {''f''}] :: strdb_t"
  have c: "cmd ?a = Parse True ''demo.c''" and cb: "cmd ?b = Parse True ''.''" by simp_all
  have s: "strdb ?a \<noteq> filesdb ?a" and sb: "strdb ?b \<noteq> filesdb ?b"
    and s': "strdb demo_args \<noteq> filesdb demo_args"
    and p: "strdb ?a = ''str2func.db''" "filesdb ?a = ''fh.db''"
    by (simp_all add: demo_args_def)
  have fs: "take (files_done demo_world (length (get_cpp_files demo_world ''demo.c'')))
      (get_cpp_files demo_world ''demo.c'') = [''demo.c'']"
    by (simp add: get_cpp_files_demo files_done_demo)
  have fsb: "take (files_done demo_world_dir (length (get_cpp_files demo_world_dir ''.'')))
      (get_cpp_files demo_world_dir ''.'') = [''demo.c'', ''vendor.c'', ''one.c'']"
    by (simp add: get_cpp_files_demo_vendor files_done_demo)
  have ar: "all_readable demo_world [''demo.c'']"
    by (simp add: all_readable_def demo_world_def)
  note t = restart_fresh_index [where w = demo_world and dk = demo_disk, OF c s, unfolded fs p]
  from t [THEN conjunct1] ar obtain out dk_after
    where m: "main demo_world ?a demo_disk = Inr (out, dk_after)" by blast
  from t [THEN conjunct2, THEN conjunct1, rule_format, OF m] obtain S
    where S: "process_files demo_world ?a (start_state demo_world Map.empty {} Map.empty)
        [''demo.c''] = Inr S"
      and out: "out = Database_size (card (dom (db S)))"
      and dk: "dk_after = demo_disk(''str2func.db'' \<mapsto> Pickled (PDict (db S)),
                          ''fh.db'' \<mapsto> Pickled (PSet (fdb S)))"
      and m2: "main demo_world ?a Map.empty =
                   Inr (out, [''str2func.db'' \<mapsto> Pickled (PDict (db S)),
                              ''fh.db'' \<mapsto> Pickled (PSet (fdb S))])"
    by blast
  from process_demo [OF _ S] have tables: "db S = ?D" "fdb S = {10}" by simp_all
  have out2: "out = Database_size 2"
    unfolding out tables by (simp only: card_dom_demo)
  have m1: "main demo_world ?a demo_disk =
       Inr (Database_size 2,
            demo_disk(''str2func.db'' \<mapsto> Pickled (PDict ?D), ''fh.db'' \<mapsto> Pickled (PSet {10})))"
    using m unfolding dk tables out2 .
  have m2': "main demo_world ?a Map.empty =
       Inr (Database_size 2,
            [''str2func.db'' \<mapsto> Pickled (PDict ?D), ''fh.db'' \<mapsto> Pickled (PSet {10})])"
    using m2 unfolding tables out2 .
  have tb: "savetime ?b = 1800" by (simp add: demo_args_def)
  have died: "main demo_world_dir ?b demo_disk = Inl (OSError, demo_disk)"
    by (rule main_demo_vendor [OF _ cb initial_tables_restart [OF cb] tb]) simp
  note u = restart_fresh_index [where w = demo_world_dir and dk = demo_disk, OF cb sb,
      unfolded fsb]
  from u [THEN conjunct2, THEN conjunct2, rule_format, OF died]
  have "\<exists>j < length [''demo.c'', ''vendor.c'', ''one.c''].
      read_bytes demo_world_dir ([''demo.c'', ''vendor.c'', ''one.c''] ! j) = None
      \<or> parse demo_world_dir ([''demo.c'', ''vendor.c'', ''one.c''] ! j) = None"
    by blast
  then have bad: "\<exists>j < 3. read_bytes demo_world_dir ([''demo.c'', ''vendor.c'', ''one.c''] ! j) = None
              \<or> parse demo_world_dir ([''demo.c'', ''vendor.c'', ''one.c''] ! j) = None"
    by (simp add: numeral_3_eq_3)
  from c s' ar m1 m2' died bad show ?thesis by blast
qed




text \<open>
  C7. A file that reads and parses, with one function declaration whose only qualifying
  literal is \<^verbatim>\<open>"0123456789AB"\<close> (twelve characters between the quotes, fourteen with them),
  is indexed from an empty index, no Ctrl+C arriving before the loop: the index that is
  saved has the single entry from the hash of \<^verbatim>\<open>0123456789AB\<close> to the set of the function's
  name, and \<^verbatim>\<open>find 0123456789AB\<close> on the saved files reports that set.
\<close>

theorem end_to_end_literal:
  fixes w :: world
  assumes "cmd a = Parse r p" "initial_tables a dk = Inr (Map.empty, {})"
    and "strdb a \<noteq> filesdb a"
    and "is_file w p" "path_suffix p \<in> {''.c'', ''.cpp''}" "\<not> sigint w 0"
    and "read_bytes w p = Some bytes"
    and "parse w p = Some (pre @ [fn] @ post)" "node_kind fn = FUNCTION_DECL"
    and "filter qualifying (get_tokens fn) = [quoted ''0123456789AB'']"
    and "\<forall>n \<in> set (pre @ post). node_kind n = FUNCTION_DECL \<longrightarrow> literals n = []"
  shows "length ''0123456789AB'' = 12
       \<and> length (token_spelling (quoted ''0123456789AB'')) = 14
       \<and> (\<exists>dk'. main w a dk = Inr (Database_size 1, dk')
             \<and> load_db dk' (strdb a)
                 = Inr (PDict [get_hash w ''0123456789AB'' \<mapsto> {node_spelling fn}])
             \<and> main w (a\<lparr>cmd := Find ''0123456789AB''\<rparr>) dk'
                 = Inr (Found_in_functions {node_spelling fn}, dk'))"
proof -
  let ?D = "[get_hash w ''0123456789AB'' \<mapsto> {node_spelling fn}]"
  let ?F = "{xxh64 w bytes}"
  let ?dk = "dk(strdb a \<mapsto> Pickled (PDict ?D), filesdb a \<mapsto> Pickled (PSet ?F))"
  let ?st = "start_state w Map.empty {} dk"
  have files: "get_cpp_files w p = [p]"
    using assms(4,5) by (simp add: get_cpp_files_def)
  have fh: "file_hash w p = Some (xxh64 w bytes)"
    using assms(7) by (simp add: file_hash_def)
  have lit: "literals fn = [''0123456789AB'']"
    using assms(10) by (simp add: literals_def quoted_def slice_1_m1_def)
  have "index_function w fn Map.empty = ?D"
    by (simp add: index_function_def lit merge_def)
  moreover have "index_nodes w pre Map.empty = Map.empty" "index_nodes w post ?D = ?D"
    using assms(11) by (simp_all add: index_nodes_no_literals)
  ultimately have nodes: "index_nodes w (pre @ [fn] @ post) Map.empty = ?D"
    using assms(9) by (simp add: index_nodes_append) (simp add: index_nodes_def)
  from process_file_readable [of w p a ?st] assms(7,8)
  obtain S where S: "process_file w a p ?st = Inr S" by auto
  have f: "fdb S = ?F"
    using fdb_process_file [OF S fh] by simp
  from db_process_file_new [OF S fh] obtain ns
    where "parse w p = Some ns" "db S = index_nodes w ns (db ?st)" by auto
  with assms(8) nodes have d: "db S = ?D" by simp
  have card: "card (dom ?D) = 1" by simp
  have m: "main w a dk = Inr (Database_size 1, ?dk)"
    using main_parse [where w = w, OF assms(1,2)] assms(6)
    by (simp add: files files_done_one S d f)
  have ld: "load_db ?dk (strdb a) = Inr (PDict ?D)"
    using assms(3) by (simp add: load_after_save)
  have lf: "load_fdb ?dk (filesdb a) = Inr (PSet ?F)"
    by (simp add: load_after_save)
  have "main w (a\<lparr>cmd := Find ''0123456789AB''\<rparr>) ?dk = Inr (Found_in_functions {node_spelling fn}, ?dk)"
    using main_find [where w = w and a = "a\<lparr>cmd := Find ''0123456789AB''\<rparr>" and dk = ?dk
        and s = "''0123456789AB''" and d = ?D and f = ?F] ld lf
    by simp
  with m ld show ?thesis by (simp add: quoted_def)
qed

theorem end_to_end_literal_witness:
  "cmd (demo_args\<lparr>cmd := Parse False ''one.c''\<rparr>) = Parse False ''one.c''
   \<and> initial_tables (demo_args\<lparr>cmd := Parse False ''one.c''\<rparr>) Map.empty = Inr (Map.empty, {})
   \<and> strdb demo_args \<noteq> filesdb demo_args
   \<and> is_file demo_world ''one.c'' \<and> path_suffix ''one.c'' = ''.c'' \<and> \<not> sigint demo_world 0
   \<and> read_bytes demo_world ''one.c'' = Some ''int g;''
   \<and> parse demo_world ''one.c'' = Some ([demo_unit] @ [demo_g] @ [])
   \<and> node_kind demo_g = FUNCTION_DECL \<and> node_spelling demo_g = ''g''
   \<and> filter qualifying (get_tokens demo_g) = [quoted ''0123456789AB'']
   \<and> literals demo_unit = []
   \<and> (\<exists>dk'. main demo_world (demo_args\<lparr>cmd := Parse False ''one.c''\<rparr>) Map.empty
               = Inr (Database_size 1, dk')
         \<and> load_db dk' ''str2func.db'' = Inr (PDict [12 \<mapsto> {''g''}])
         \<and> main demo_world (demo_args\<lparr>cmd := Find ''0123456789AB''\<rparr>) dk'
               = Inr (Found_in_functions {''g''}, dk'))"
proof -
  let ?a = "demo_args\<lparr>cmd := Parse False ''one.c''\<rparr>"
  have c: "cmd ?a = Parse False ''one.c''" by simp
  have it: "initial_tables ?a Map.empty = Inr (Map.empty, {})"
    by (rule initial_tables_no_files) (simp add: restart_def)
  have s: "strdb ?a \<noteq> filesdb ?a" and s': "strdb demo_args \<noteq> filesdb demo_args"
    by (simp_all add: demo_args_def)
  have f: "is_file demo_world ''one.c''" and ns: "\<not> sigint demo_world 0"
    and rb: "read_bytes demo_world ''one.c'' = Some ''int g;''"
    and pa: "parse demo_world ''one.c'' = Some ([demo_unit] @ [demo_g] @ [])"
    by (simp_all add: demo_world_def)
  have sx: "path_suffix ''one.c'' = ''.c''"
    by (simp add: path_suffix_def path_name_def)
  then have sx': "path_suffix ''one.c'' \<in> {''.c'', ''.cpp''}" by simp
  have k: "node_kind demo_g = FUNCTION_DECL" and nm: "node_spelling demo_g = ''g''"
    by (simp_all add: demo_g_def)
  have q: "filter qualifying (get_tokens demo_g) = [quoted ''0123456789AB'']"
    by (simp add: demo_g_def quoted_def qualifying_def startswith_dquote_def dquote_def)
  have lu: "literals demo_unit = []" by (simp add: literals_def demo_unit_def)
  then have rest: "\<forall>n \<in> set ([demo_unit] @ []). node_kind n = FUNCTION_DECL \<longrightarrow> literals n = []"
    by simp
  have h: "get_hash demo_world ''0123456789AB'' = 12"
    by (simp add: get_hash_def demo_world_def)
  have upd: "?a\<lparr>cmd := Find ''0123456789AB''\<rparr> = demo_args\<lparr>cmd := Find ''0123456789AB''\<rparr>"
    by simp
  have p: "strdb ?a = ''str2func.db''" by (simp add: demo_args_def)
  note t = end_to_end_literal [where w = demo_world, OF c it s f sx' ns rb pa k q rest,
      unfolded h nm upd p]
  from t have "\<exists>dk'. main demo_world ?a Map.empty = Inr (Database_size 1, dk')
         \<and> load_db dk' ''str2func.db'' = Inr (PDict [12 \<mapsto> {''g''}])
         \<and> main demo_world (demo_args\<lparr>cmd := Find ''0123456789AB''\<rparr>) dk'
               = Inr (Found_in_functions {''g''}, dk')"
    by blast
  with c it s' f sx ns rb pa k nm q lu show ?thesis by blast
qed

text \<open>
  C8, as stated, fails: \<^verbatim>\<open>save_db\<close> opens the file with mode \<^verbatim>\<open>'wb'\<close>, so between the
  opening and the end of the dump the file is cut off. A load at that moment gives
  neither the table that was there nor the new one.
\<close>

theorem save_db_not_atomic_counterexample:
  "save_db_stages (PDict [7 \<mapsto> {''h'', ''f''}]) ''str2func.db'' demo_disk ! 0
     = open_wb ''str2func.db'' demo_disk
   \<and> load_db demo_disk ''str2func.db'' = Inr (PDict [7 \<mapsto> {''h''}])
   \<and> load_db (save_db_stages (PDict [7 \<mapsto> {''h'', ''f''}]) ''str2func.db'' demo_disk ! 0)
        ''str2func.db'' = Inl EOFError
   \<and> load_db (save_db_stages (PDict [7 \<mapsto> {''h'', ''f''}]) ''str2func.db'' demo_disk ! 0)
        ''str2func.db'' \<noteq> load_db demo_disk ''str2func.db''
   \<and> load_db (save_db_stages (PDict [7 \<mapsto> {''h'', ''f''}]) ''str2func.db'' demo_disk ! 0)
        ''str2func.db'' \<noteq> Inr (PDict [7 \<mapsto> {''h'', ''f''}])"
  by (simp add: save_db_stages_def open_wb_def load_db_def pickle_load_def demo_disk_def)

text \<open>
  C8, amended. A save that runs to its end leaves the whole table in the file, a later load
  returns exactly that table, and no other file is touched at any stage; a save that is
  stopped after the opening of the file leaves it cut off, and a later load raises
  \<^verbatim>\<open>EOFError\<close>.
\<close>

theorem save_db_whole_when_completed:
  "last (save_db_stages v filename dk) = save_db v filename dk
   \<and> load_db (save_db v filename dk) filename = Inr v
   \<and> load_fdb (save_db v filename dk) filename = Inr v
   \<and> (\<forall>s \<in> set (save_db_stages v filename dk). \<forall>q. q \<noteq> filename \<longrightarrow> s q = dk q)
   \<and> load_db (hd (save_db_stages v filename dk)) filename = Inl EOFError
   \<and> load_fdb (hd (save_db_stages v filename dk)) filename = Inl EOFError"
  by (simp add: save_db_stages_def load_db_def load_fdb_def save_db_def pickle_dump_def
      open_wb_def pickle_load_def)

theorem save_db_whole_when_completed_witness:
  "save_db (PSet {3, 4}) ''fh.db'' demo_disk \<in> set (save_db_stages (PSet {3, 4}) ''fh.db'' demo_disk)
   \<and> ''str2func.db'' \<noteq> ''fh.db''
   \<and> save_db (PSet {3, 4}) ''fh.db'' demo_disk ''str2func.db'' = demo_disk ''str2func.db''
   \<and> load_fdb (save_db (PSet {3, 4}) ''fh.db'' demo_disk) ''fh.db'' = Inr (PSet {3, 4})
   \<and> load_fdb (hd (save_db_stages (PSet {3, 4}) ''fh.db'' demo_disk)) ''fh.db'' = Inl EOFError"
  using save_db_whole_when_completed [of "PSet {3, 4}" "''fh.db''" demo_disk]
  by (simp add: save_db_stages_def)

text \<open>
  C9. Loading a path that has just been saved gives back the object that was saved, for
  the dictionary as for the set, whatever the order in which their entries are listed;
  after \<^verbatim>\<open>save_all\<close> the files database loads back from its path, and the index from
  its path when the two paths are different files; a path where no file exists loads as
  the empty dictionary (\<^verbatim>\<open>load_db\<close>) or the empty set (\<^verbatim>\<open>load_fdb\<close>).
\<close>

theorem persistence_round_trip:
  "load_db (save_db x filename dk) filename = Inr x
   \<and> load_fdb (save_db x filename dk) filename = Inr x
   \<and> (dk filename = None \<longrightarrow>
        load_db dk filename = Inr (PDict Map.empty) \<and> load_fdb dk filename = Inr (PSet {}))
   \<and> load_fdb (on_disk (save_all a st)) (filesdb a) = Inr (PSet (fdb st))
   \<and> (strdb a \<noteq> filesdb a \<longrightarrow>
        load_db (on_disk (save_all a st)) (strdb a) = Inr (PDict (db st)))"
  by (simp add: load_db_def load_fdb_def save_db_def pickle_dump_def open_wb_def
      pickle_load_def save_all_on_disk)

theorem persistence_round_trip_witness:
  "(Map.empty :: disk) ''str2func.db'' = None
   \<and> load_db Map.empty ''str2func.db'' = Inr (PDict Map.empty)
   \<and> load_fdb Map.empty ''fh.db'' = Inr (PSet {})
   \<and> strdb demo_args \<noteq> filesdb demo_args
   \<and> load_db (on_disk (save_all demo_args (start_state demo_world [7 \<mapsto> {''h''}] {3} Map.empty)))
        (strdb demo_args) = Inr (PDict [7 \<mapsto> {''h''}])
   \<and> load_fdb (on_disk (save_all demo_args (start_state demo_world [7 \<mapsto> {''h''}] {3} Map.empty)))
        (filesdb demo_args) = Inr (PSet {3})"
  using persistence_round_trip [of "PDict Map.empty" "''str2func.db''" Map.empty demo_args
      "start_state demo_world [7 \<mapsto> {''h''}] {3} Map.empty"]
    persistence_round_trip [of "PDict Map.empty" "''fh.db''" Map.empty demo_args
      "start_state demo_world [7 \<mapsto> {''h''}] {3} Map.empty"]
  by (simp add: demo_args_def)

text \<open>
  C10. \<^verbatim>\<open>merge\<close> keeps every key with at least the names it had, and puts no empty set
  into an index that has none. Hence in every state of the database files that runs of
  the program lead to, starting without database files and whether a run returns or dies
  on a file, no key of a saved index has an empty set of names; the same holds for the
  index a command loads, for the index in memory after any number of files of a \<^verbatim>\<open>parse\<close>
  run, and for the set that \<^verbatim>\<open>find\<close> reports.
\<close>

theorem names_never_empty:
  assumes "reachable dk"
  shows "grows d0 (merge h x d0)
       \<and> (names_nonempty d0 \<longrightarrow> names_nonempty (merge h x d0))
       \<and> (\<forall>q d. dk q = Some (Pickled (PDict d)) \<longrightarrow> (\<forall>k names. d k = Some names \<longrightarrow> names \<noteq> {}))
       \<and> (\<forall>a d f. initial_tables a dk = Inr (d, f) \<longrightarrow>
             names_nonempty d
             \<and> (\<forall>w fs S. process_files w a (start_state w d f dk) fs = Inr S \<longrightarrow>
                   names_nonempty (db S)))
       \<and> (\<forall>w a names dk'. main w a dk = Inr (Found_in_functions names, dk') \<longrightarrow> names \<noteq> {})"
proof -
  note inv = reachable_names [OF assms]
  have tables: "names_nonempty d" if "initial_tables a dk = Inr (d, f)" for a d f
    using initial_tables_names [OF inv that] .
  have found: "names \<noteq> {}" if "main w a dk = Inr (Found_in_functions names, dk')"
    for w a names dk'
  proof -
    from main_found_names [OF that] obtain d f
      where "initial_tables a dk = Inr (d, f)" "names \<in> ran d" by blast
    with tables [of a d f] show ?thesis by (auto simp: names_nonempty_def)
  qed
  have disk: "names \<noteq> {}" if "dk q = Some (Pickled (PDict d))" "d k = Some names" for q d k names
    using inv that by (auto simp: names_nonempty_iff)
  have mem: "names_nonempty (db S)"
    if "initial_tables a dk = Inr (d, f)" "process_files w a (start_state w d f dk) fs = Inr S"
    for a d f w fs S
    using names_nonempty_process_files [OF that(2)] tables [OF that(1)] by simp
  show ?thesis
    using tables found disk mem
    by (intro conjI allI impI grows_merge names_nonempty_merge) blast+
qed

theorem names_never_empty_witness:
  "reachable [''str2func.db'' \<mapsto> Pickled (PDict [11 \<mapsto> {''f''}, 12 \<mapsto> {''f''}]),
              ''fh.db'' \<mapsto> Pickled (PSet {10})]
   \<and> names_nonempty Map.empty
   \<and> names_nonempty (merge 11 ''f'' Map.empty)
   \<and> merge 11 ''f'' Map.empty 11 = Some {''f''}
   \<and> ([11 \<mapsto> {''f''}, 12 \<mapsto> {''f''}] :: strdb_t) 12 = Some {''f''}
   \<and> {''f''} \<noteq> ({} :: string set)"
proof -
  let ?dk = "[''str2func.db'' \<mapsto> Pickled (PDict [11 \<mapsto> {''f''}, 12 \<mapsto> {''f''}]),
              ''fh.db'' \<mapsto> Pickled (PSet {10})]"
  have r: "reachable ?dk"
    using reachable.run [OF reachable.no_files main_demo_parse] .
  note t = names_never_empty [OF r, of Map.empty 11 "''f''"]
  from t names_nonempty_empty have "names_nonempty (merge 11 ''f'' Map.empty)" by blast
  moreover from t have "\<forall>k names. ([11 \<mapsto> {''f''}, 12 \<mapsto> {''f''}] :: strdb_t) k = Some names
      \<longrightarrow> names \<noteq> {}"
    by (elim conjE allE [of _ "''str2func.db''"] allE [of _ "[11 \<mapsto> {''f''}, 12 \<mapsto> {''f''}]"]) simp
  ultimately show ?thesis
    using r names_nonempty_empty by (simp add: merge_def)
qed

end
